theory Spec2Isabelle
  imports Main "HOL-Library.Word"
begin

section \<open>Go's time package, as far as the repository uses it\<close>

text \<open>
  A \<^verbatim>\<open>time.Time\<close> is modelled by the instant it denotes: the number of nanoseconds
  since the Unix epoch, as an unbounded integer. The location a Go time value carries only
  changes what the calendar accessors (\<^verbatim>\<open>Hour\<close>, \<^verbatim>\<open>Weekday\<close>, ...) print;
  \<^verbatim>\<open>UTC()\<close> and \<^verbatim>\<open>In(loc)\<close> keep the instant, and \<^verbatim>\<open>Before\<close>, \<^verbatim>\<open>After\<close>,
  \<^verbatim>\<open>Equal\<close> compare instants. The accessors therefore take the location as an argument.
  A \<^verbatim>\<open>time.Duration\<close> is a number of nanoseconds.
\<close>

type_synonym instant = int
type_synonym duration = int

definition time_Second :: duration where
  "time_Second = 1000000000"

definition time_Hour :: duration where
  "time_Hour = 3600 * time_Second"

definition Before :: "instant \<Rightarrow> instant \<Rightarrow> bool" where
  "Before t u = (t < u)"

definition After :: "instant \<Rightarrow> instant \<Rightarrow> bool" where
  "After t u = (t > u)"

definition Equal :: "instant \<Rightarrow> instant \<Rightarrow> bool" where
  "Equal t u = (t = u)"

definition Add :: "instant \<Rightarrow> duration \<Rightarrow> instant" where
  "Add t d = t + d"

text \<open>\<^verbatim>\<open>t.Sub(u)\<close> saturates at the largest and smallest \<^verbatim>\<open>Duration\<close> (an int64).\<close>

definition maxDuration :: duration where
  "maxDuration = 2 ^ 63 - 1"

definition minDuration :: duration where
  "minDuration = - (2 ^ 63)"

definition Sub :: "instant \<Rightarrow> instant \<Rightarrow> duration" where
  "Sub t u = (if t - u > maxDuration then maxDuration
              else if t - u < minDuration then minDuration else t - u)"

text \<open>
  \<^verbatim>\<open>t.UnixNano()\<close> is an int64: Go computes seconds * 1e9 + nanoseconds in 64-bit
  arithmetic, so an instant outside the int64 range of nanoseconds (before 1678 or after
  2262) wraps around.
\<close>

definition UnixNano :: "instant \<Rightarrow> int" where
  "UnixNano t = (t + 2 ^ 63) mod 2 ^ 64 - 2 ^ 63"

definition inInt64 :: "int \<Rightarrow> bool" where
  "inInt64 t = (- (2 ^ 63) \<le> t \<and> t < 2 ^ 63)"

text \<open>The zero \<^verbatim>\<open>time.Time\<close> is 0001-01-01 00:00:00 UTC.\<close>

definition zeroTime :: instant where
  "zeroTime = - 62135596800 * 1000000000"

definition IsZero :: "instant \<Rightarrow> bool" where
  "IsZero t = (t = zeroTime)"

subsection \<open>Locations and the calendar accessors\<close>

text \<open>
  A \<^verbatim>\<open>*time.Location\<close> is the table the time zone database gives for a zone name: the
  offset (seconds east of UTC) in force before the first transition, and the transitions
  in ascending order, each the Unix second at which it takes effect and the offset from
  then on. \<^verbatim>\<open>lookup\<close> returns the offset in force at a Unix second and the bounds
  \<open>[start, end)\<close> of the period it lies in. Go marks the start of the first period and
  the end of the last one with the sentinels \<^verbatim>\<open>alpha\<close> and \<^verbatim>\<open>omega\<close>, the least and
  the greatest int64; seconds are unbounded integers here, so these two bounds are absent
  (\<open>None\<close>) instead: no second lies before \<^verbatim>\<open>alpha\<close> or at or after \<^verbatim>\<open>omega\<close>.
  (Go finds the period by binary search; on an ascending table the scan below finds the
  same one. A zone's rule for the years after its last listed transition is taken as
  expanded into the table.)
\<close>

record Location =
  zoneFirst :: int
  zoneTrans :: "(int \<times> int) list"

fun lookupFrom ::
  "int \<Rightarrow> int option \<Rightarrow> (int \<times> int) list \<Rightarrow> int \<Rightarrow> int \<times> int option \<times> int option" where
  "lookupFrom offset start [] sec = (offset, start, None)"
| "lookupFrom offset start ((when, off) # tx) sec =
     (if sec < when then (offset, start, Some when) else lookupFrom off (Some when) tx sec)"

definition lookup :: "Location \<Rightarrow> int \<Rightarrow> int \<times> int option \<times> int option" where
  "lookup l sec = lookupFrom (zoneFirst l) None (zoneTrans l) sec"

definition UTC :: Location where
  "UTC = \<lparr> zoneFirst = 0, zoneTrans = [] \<rparr>"

text \<open>
  A time value seen in a location is the pair of its instant and the location;
  \<^verbatim>\<open>t.In(loc)\<close> builds it. The accessors read the local clock: the Unix second of the
  instant plus the offset in force then.
\<close>

type_synonym local_time = "instant \<times> Location"

definition In :: "instant \<Rightarrow> Location \<Rightarrow> local_time" where
  "In t loc = (t, loc)"

definition unixSec :: "instant \<Rightarrow> int" where
  "unixSec t = t div 1000000000"

definition absSec :: "local_time \<Rightarrow> int" where
  "absSec lt = unixSec (fst lt) + fst (lookup (snd lt) (unixSec (fst lt)))"

definition Hour :: "local_time \<Rightarrow> int" where
  "Hour lt = (absSec lt mod 86400) div 3600"

definition Minute :: "local_time \<Rightarrow> int" where
  "Minute lt = (absSec lt mod 3600) div 60"

definition Second :: "local_time \<Rightarrow> int" where
  "Second lt = absSec lt mod 60"

definition Nanosecond :: "local_time \<Rightarrow> int" where
  "Nanosecond lt = fst lt mod 1000000000"

text \<open>
  The civil date \<^verbatim>\<open>(Year(), Month(), Day())\<close> of a time value is carried as one number,
  the count of days from 1970-01-01 to that date. The source only ever hands the three
  accessors' results on to \<^verbatim>\<open>time.Date\<close>, which first turns them back into this count.
\<close>

definition civilDay :: "local_time \<Rightarrow> int" where
  "civilDay lt = absSec lt div 86400"

text \<open>\<^verbatim>\<open>Weekday()\<close>: Sunday is 0; 1970-01-01 was a Thursday.\<close>

definition Weekday :: "local_time \<Rightarrow> int" where
  "Weekday lt = (civilDay lt + 4) mod 7"

definition time_Sunday :: int where
  "time_Sunday = 0"

text \<open>
  \<^verbatim>\<open>time.Date(y, m, d, hour, min, sec, nsec, loc)\<close> for the date with day count \<open>day\<close>:
  the wall-clock reading is first taken as if it were UTC, then corrected by the offset
  the location has there, and by the offset at the corrected second when that falls
  outside the period found first. The clock fields come from the accessors above, so they
  are in range and nothing is normalised.
\<close>

definition Date :: "int \<Rightarrow> int \<Rightarrow> int \<Rightarrow> int \<Rightarrow> int \<Rightarrow> Location \<Rightarrow> instant" where
  "Date day hour minute sec nsec loc =
     (let unix = day * 86400 + hour * 3600 + minute * 60 + sec;
          (offset, start, end) = lookup loc unix;
          unix' = (if offset \<noteq> 0
                   then (let utc = unix - offset;
                             offset' = (if (case start of None \<Rightarrow> False | Some a \<Rightarrow> utc < a) \<or>
                                           (case end of None \<Rightarrow> False | Some z \<Rightarrow> utc \<ge> z)
                                        then fst (lookup loc utc) else offset)
                         in unix - offset')
                   else unix)
      in unix' * 1000000000 + nsec)"

text \<open>\<^verbatim>\<open>t.AddDate(0, 0, days)\<close> on a UTC time: UTC days all have 24 hours.\<close>

definition AddDate_days :: "instant \<Rightarrow> int \<Rightarrow> instant" where
  "AddDate_days t days = t + days * (24 * time_Hour)"

text \<open>
  The days from 1970-01-01 to a proleptic Gregorian date, used to write down concrete
  dates.
\<close>

definition daysFromCivil :: "int \<Rightarrow> int \<Rightarrow> int \<Rightarrow> int" where
  "daysFromCivil y m d =
     (let y' = (if m \<le> 2 then y - 1 else y);
          era = y' div 400;
          yoe = y' - era * 400;
          doy = (153 * (if m > 2 then m - 3 else m + 9) + 2) div 5 + d - 1;
          doe = yoe * 365 + yoe div 4 - yoe div 100 + doy
      in era * 146097 + doe - 719468)"

definition utcDate :: "int \<Rightarrow> int \<Rightarrow> int \<Rightarrow> int \<Rightarrow> int \<Rightarrow> int \<Rightarrow> instant" where
  "utcDate y m d hour minute sec = Date (daysFromCivil y m d) hour minute sec 0 UTC"

text \<open>Go's integer division truncates towards zero.\<close>

definition quo :: "int \<Rightarrow> int \<Rightarrow> int" where
  "quo a b = sgn a * sgn b * (\<bar>a\<bar> div \<bar>b\<bar>)"

subsection \<open>strconv.FormatInt in base 10\<close>

function formatUint :: "int \<Rightarrow> string" where
  "formatUint n = (if n < 10 then [char_of (48 + n)]
                   else formatUint (n div 10) @ [char_of (48 + n mod 10)])"
  by pat_completeness auto
termination
  by (relation "measure nat") auto

declare formatUint.simps [simp del]

definition FormatInt :: "int \<Rightarrow> string" where
  "FormatInt i = (if i < 0 then CHR ''-'' # formatUint (- i) else formatUint i)"

section \<open>Domain types\<close>

type_synonym uuid = "128 word"

definition uuid_Nil :: uuid where
  "uuid_Nil = 0"

text \<open>\<^verbatim>\<open>RecurringExceptionKind\<close> and \<^verbatim>\<open>RecurrenceFrequency\<close> are string types in the source.\<close>

type_synonym RecurringExceptionKind = string
type_synonym RecurrenceFrequency = string

definition RecurringExceptionKindSkip :: RecurringExceptionKind where
  "RecurringExceptionKindSkip = ''skip''"

definition RecurringExceptionKindOverride :: RecurringExceptionKind where
  "RecurringExceptionKindOverride = ''override''"

definition RecurrenceFrequencyWeekly :: RecurrenceFrequency where
  "RecurrenceFrequencyWeekly = ''weekly''"

text \<open>
  The fields of each struct keep their names, prefixed by a letter for the struct
  (\<open>a_\<close> Appointment, \<open>s_\<close> RecurringSeries, \<open>e_\<close> RecurringException,
  \<open>o_\<close> RecurringOccurrence), since record fields share one name space.
  A nil pointer field is \<open>None\<close>.
\<close>

record Appointment =
  a_ID :: uuid
  a_UserID :: string
  a_Title :: string
  a_Notes :: string
  a_StartTime :: instant
  a_EndTime :: instant
  a_CreatedAt :: instant
  a_UpdatedAt :: instant

record RecurringSeries =
  s_ID :: uuid
  s_UserID :: string
  s_Title :: string
  s_Notes :: string
  s_Timezone :: string
  s_DTStart :: instant
  s_DurationSeconds :: int
  s_Frequency :: RecurrenceFrequency
  s_Interval :: int
  s_ByWeekday :: "int list"
  s_Until :: "instant option"
  s_Count :: "int option"
  s_CreatedAt :: instant
  s_UpdatedAt :: instant

record RecurringException =
  e_ID :: uuid
  e_SeriesID :: uuid
  e_OccurrenceStart :: instant
  e_Kind :: RecurringExceptionKind
  e_OverrideStart :: "instant option"
  e_OverrideEnd :: "instant option"
  e_OverrideTitle :: "string option"
  e_OverrideNotes :: "string option"
  e_CreatedAt :: instant
  e_UpdatedAt :: instant

record RecurringOccurrence =
  o_ID :: string
  o_SeriesID :: uuid
  o_UserID :: string
  o_Title :: string
  o_Notes :: string
  o_StartTime :: instant
  o_EndTime :: instant

section \<open>Errors\<close>

text \<open>
  The sentinel errors of package store, the service's \<^verbatim>\<open>ValidationError\<close>, an error made
  with \<^verbatim>\<open>errors.New\<close> in package domain, a \<^verbatim>\<open>*pgconn.PgError\<close> with its SQLSTATE code
  and constraint name, and any other error of the database driver.
\<close>

datatype error =
    ErrConflict
  | ErrNotFound
  | ErrIdempotencyConflict
  | ValidationError string
  | errors_New string
  | PgError string string
  | DriverError string

section \<open>The recurrence engine (GenerateWeeklyOccurrences)\<close>

definition weekdayOffsetFromMonday :: "int \<Rightarrow> int" where
  "weekdayOffsetFromMonday weekday = (if weekday = 7 then 6 else weekday - 1)"

text \<open>The result of \<^verbatim>\<open>mondayDateUTC\<close> is a UTC midnight, an instant like any other.\<close>

definition mondayDateUTC :: "local_time \<Rightarrow> instant" where
  "mondayDateUTC t =
     (let wd = Weekday t;
          offset = (if wd = time_Sunday then 6 else wd - 1);
          d = Date (civilDay t) 0 0 0 0 UTC
      in AddDate_days d (- offset))"

text \<open>
  The first loop over \<^verbatim>\<open>series.ByWeekday\<close>: range check, then the \<^verbatim>\<open>seen\<close> set, whose
  members are exactly the weekdays appended so far.
\<close>

fun weekdaysLoop :: "int list \<Rightarrow> int list \<Rightarrow> error + int list" where
  "weekdaysLoop [] weekdays = Inr weekdays"
| "weekdaysLoop (wd # rest) weekdays =
     (if wd < 1 \<or> wd > 7 then Inl (errors_New ''invalid weekday'')
      else if wd \<in> set weekdays then weekdaysLoop rest weekdays
      else weekdaysLoop rest (weekdays @ [wd]))"

text \<open>
  The local variables the two loops of the function read. \<^verbatim>\<open>interval\<close> and
  \<^verbatim>\<open>maxCount\<close> are functions of the series.
\<close>

definition interval :: "RecurringSeries \<Rightarrow> int" where
  "interval series = (if s_Interval series < 1 then 1 else s_Interval series)"

definition maxCount :: "RecurringSeries \<Rightarrow> int" where
  "maxCount series = (case s_Count series of None \<Rightarrow> - 1 | Some c \<Rightarrow> c)"

record locals =
  l_series :: RecurringSeries
  l_loc :: Location
  l_windowStart :: instant
  l_windowEnd :: instant
  l_weekdays :: "int list"
  l_startWeekMondayUTC :: instant
  l_windowEndWeekBoundaryUTC :: instant
  l_skippedInFirstWeek :: int

text \<open>
  The start of the candidate occurrence on weekday \<open>wd\<close> of the week whose Monday is
  \<open>weekStartMondayUTC\<close>: the expression \<^verbatim>\<open>time.Date(occDateUTC.Year(), ..., loc).UTC()\<close>,
  which the source writes out in both loops.
\<close>

definition candidateStart :: "RecurringSeries \<Rightarrow> Location \<Rightarrow> instant \<Rightarrow> int \<Rightarrow> instant" where
  "candidateStart series loc weekStartMondayUTC wd =
     (let dtstartLocal = In (s_DTStart series) loc;
          occDateUTC = AddDate_days weekStartMondayUTC (weekdayOffsetFromMonday wd)
      in Date (civilDay (In occDateUTC UTC)) (Hour dtstartLocal) (Minute dtstartLocal)
           (Second dtstartLocal) (Nanosecond dtstartLocal) loc)"

fun skippedLoop :: "RecurringSeries \<Rightarrow> Location \<Rightarrow> instant \<Rightarrow> int list \<Rightarrow> int \<Rightarrow> int" where
  "skippedLoop series loc startWeekMondayUTC [] skippedInFirstWeek = skippedInFirstWeek"
| "skippedLoop series loc startWeekMondayUTC (wd # rest) skippedInFirstWeek =
     (if Before (candidateStart series loc startWeekMondayUTC wd) (s_DTStart series)
      then skippedLoop series loc startWeekMondayUTC rest (skippedInFirstWeek + 1)
      else skippedLoop series loc startWeekMondayUTC rest skippedInFirstWeek)"

text \<open>
  The inner loop over the weekdays of one week, from index \<open>weekdayIndex\<close> on. The flag
  of the result says that the function returned from inside the loop.
\<close>

fun weekdayLoop ::
  "locals \<Rightarrow> int \<Rightarrow> instant \<Rightarrow> int \<Rightarrow> int list \<Rightarrow> RecurringOccurrence list \<Rightarrow>
   RecurringOccurrence list \<times> bool" where
  "weekdayLoop l weekIndex weekStartMondayUTC weekdayIndex [] out = (out, False)"
| "weekdayLoop l weekIndex weekStartMondayUTC weekdayIndex (wd # rest) out =
     (let series = l_series l;
          startUTC = candidateStart series (l_loc l) weekStartMondayUTC wd
      in if Before startUTC (s_DTStart series)
         then weekdayLoop l weekIndex weekStartMondayUTC (weekdayIndex + 1) rest out
         else if s_Until series \<noteq> None \<and> After startUTC (the (s_Until series))
         then (out, True)
         else if maxCount series \<ge> 0 \<and>
                 weekIndex * int (length (l_weekdays l)) + weekdayIndex - l_skippedInFirstWeek l
                   \<ge> maxCount series
         then (out, True)
         else
           let endUTC = Add startUTC (s_DurationSeconds series * time_Second)
           in if Before startUTC (l_windowEnd l) \<and> After endUTC (l_windowStart l)
              then weekdayLoop l weekIndex weekStartMondayUTC (weekdayIndex + 1) rest
                     (out @ [\<lparr> o_ID = FormatInt (UnixNano startUTC),
                               o_SeriesID = s_ID series, o_UserID = s_UserID series,
                               o_Title = s_Title series, o_Notes = s_Notes series,
                               o_StartTime = startUTC, o_EndTime = endUTC \<rparr>])
              else weekdayLoop l weekIndex weekStartMondayUTC (weekdayIndex + 1) rest out)"

function weekLoop :: "locals \<Rightarrow> int \<Rightarrow> RecurringOccurrence list \<Rightarrow> RecurringOccurrence list" where
  "weekLoop l weekIndex out =
     (let weekStartMondayUTC =
            AddDate_days (l_startWeekMondayUTC l) (weekIndex * interval (l_series l) * 7)
      in if \<not> Before weekStartMondayUTC (l_windowEndWeekBoundaryUTC l) then out
         else (case weekdayLoop l weekIndex weekStartMondayUTC 0 (l_weekdays l) out of
                 (out', True) \<Rightarrow> out'
               | (out', False) \<Rightarrow> weekLoop l (weekIndex + 1) out'))"
  by pat_completeness auto
termination
proof (relation "measure (\<lambda>(l, weekIndex, out).
    nat (l_windowEndWeekBoundaryUTC l -
         AddDate_days (l_startWeekMondayUTC l) (weekIndex * interval (l_series l) * 7)))")
  show "wf (measure (\<lambda>(l, weekIndex, out).
    nat (l_windowEndWeekBoundaryUTC l -
         AddDate_days (l_startWeekMondayUTC l) (weekIndex * interval (l_series l) * 7))))"
    by simp
next
  fix l :: locals and weekIndex :: int and out :: "RecurringOccurrence list"
    and w x y z
  assume w: "w = AddDate_days (l_startWeekMondayUTC l) (weekIndex * interval (l_series l) * 7)"
    and b: "\<not> \<not> Before w (l_windowEndWeekBoundaryUTC l)"
  have i: "interval (l_series l) \<ge> 1" by (simp add: interval_def)
  have "AddDate_days (l_startWeekMondayUTC l) ((weekIndex + 1) * interval (l_series l) * 7)
        = w + interval (l_series l) * 7 * (24 * time_Hour)"
    by (simp add: w AddDate_days_def algebra_simps)
  moreover have "interval (l_series l) * 7 * (24 * time_Hour) > 0"
    using i by (simp add: time_Hour_def time_Second_def)
  ultimately show "((l, weekIndex + 1, y), (l, weekIndex, out)) \<in> measure (\<lambda>(l, weekIndex, out).
    nat (l_windowEndWeekBoundaryUTC l -
         AddDate_days (l_startWeekMondayUTC l) (weekIndex * interval (l_series l) * 7)))"
    using b w by (simp add: Before_def)
qed

declare weekLoop.simps [simp del]

text \<open>
  \<^verbatim>\<open>time.LoadLocation\<close> reads the time zone database of the machine, which is not part of
  the repository: it is the parameter \<open>tzdb\<close>, a partial map from zone names to locations.
\<close>

type_synonym tzdb = "string \<rightharpoonup> Location"

definition GenerateWeeklyOccurrences ::
  "tzdb \<Rightarrow> RecurringSeries \<Rightarrow> instant \<Rightarrow> instant \<Rightarrow> error + RecurringOccurrence list" where
  "GenerateWeeklyOccurrences tzdb series windowStart windowEnd =
     (if s_Frequency series \<noteq> RecurrenceFrequencyWeekly
      then Inl (errors_New ''unsupported recurrence frequency'')
      else if s_DurationSeconds series \<le> 0 then Inl (errors_New ''invalid duration'')
      else case tzdb (s_Timezone series) of
        None \<Rightarrow> Inl (errors_New ''invalid time_zone'')
      | Some loc \<Rightarrow>
         (case weekdaysLoop (s_ByWeekday series) [] of
            Inl err \<Rightarrow> Inl err
          | Inr weekdays0 \<Rightarrow>
              if length weekdays0 = 0 then Inl (errors_New ''at least one weekday is required'')
              else
                let weekdays = sort weekdays0;
                    dtstartLocal = In (s_DTStart series) loc;
                    windowStartLocal = In windowStart loc;
                    windowEndLocal = In windowEnd loc;
                    startWeekMondayUTC = mondayDateUTC dtstartLocal;
                    windowStartWeekMondayUTC = mondayDateUTC windowStartLocal;
                    windowEndWeekBoundaryUTC = AddDate_days (mondayDateUTC windowEndLocal) 7;
                    startWeekIndex =
                      (if After windowStartWeekMondayUTC startWeekMondayUTC
                       then (let daysDiff = quo (Sub windowStartWeekMondayUTC startWeekMondayUTC)
                                                (24 * time_Hour);
                                 startWeekIndex = quo daysDiff (7 * interval series)
                             in if startWeekIndex < 0 then 0 else startWeekIndex)
                       else 0);
                    skippedInFirstWeek = skippedLoop series loc startWeekMondayUTC weekdays 0;
                    l = \<lparr> l_series = series, l_loc = loc, l_windowStart = windowStart,
                          l_windowEnd = windowEnd, l_weekdays = weekdays,
                          l_startWeekMondayUTC = startWeekMondayUTC,
                          l_windowEndWeekBoundaryUTC = windowEndWeekBoundaryUTC,
                          l_skippedInFirstWeek = skippedInFirstWeek \<rparr>
                in Inr (weekLoop l startWeekIndex [])))"

section \<open>The exception merger (applyRecurringExceptions)\<close>

text \<open>
  \<^verbatim>\<open>byOccurrenceStart\<close> is a Go map from the int64 \<^verbatim>\<open>UnixNano\<close> of an exception's
  occurrence start to the exception; a later exception with the same key overwrites an
  earlier one.
\<close>

fun indexLoop ::
  "RecurringException list \<Rightarrow> (int \<rightharpoonup> RecurringException) \<Rightarrow> (int \<rightharpoonup> RecurringException)" where
  "indexLoop [] m = m"
| "indexLoop (e # exs) m = indexLoop exs (m(UnixNano (e_OccurrenceStart e) \<mapsto> e))"

definition byOccurrenceStart :: "RecurringException list \<Rightarrow> (int \<rightharpoonup> RecurringException)" where
  "byOccurrenceStart exs = indexLoop exs Map.empty"

text \<open>The loop over \<^verbatim>\<open>occs\<close>, with the slice \<^verbatim>\<open>out\<close> it appends to.\<close>

fun applyLoop ::
  "(int \<rightharpoonup> RecurringException) \<Rightarrow> instant \<Rightarrow> instant \<Rightarrow>
   RecurringOccurrence list \<Rightarrow> RecurringOccurrence list \<Rightarrow> RecurringOccurrence list" where
  "applyLoop m windowStart windowEnd [] out = out"
| "applyLoop m windowStart windowEnd (oc # occs) out =
     (case m (UnixNano (o_StartTime oc)) of
        None \<Rightarrow> applyLoop m windowStart windowEnd occs (out @ [oc])
      | Some ex \<Rightarrow>
          if e_Kind ex = RecurringExceptionKindSkip
          then applyLoop m windowStart windowEnd occs out
          else
            let start = (case e_OverrideStart ex of None \<Rightarrow> o_StartTime oc | Some t \<Rightarrow> t);
                end = (case e_OverrideEnd ex of None \<Rightarrow> o_EndTime oc | Some t \<Rightarrow> t);
                title = (case e_OverrideTitle ex of None \<Rightarrow> o_Title oc | Some s \<Rightarrow> s);
                notes = (case e_OverrideNotes ex of None \<Rightarrow> o_Notes oc | Some s \<Rightarrow> s)
            in if Before start windowEnd \<and> After end windowStart
               then applyLoop m windowStart windowEnd occs
                      (out @ [\<lparr> o_ID = o_ID oc, o_SeriesID = o_SeriesID oc,
                                o_UserID = o_UserID oc, o_Title = title, o_Notes = notes,
                                o_StartTime = start, o_EndTime = end \<rparr>])
               else applyLoop m windowStart windowEnd occs out)"

definition applyRecurringExceptions ::
  "RecurringOccurrence list \<Rightarrow> RecurringException list \<Rightarrow> instant \<Rightarrow> instant \<Rightarrow>
   RecurringOccurrence list" where
  "applyRecurringExceptions occs exs windowStart windowEnd =
     (if length exs = 0 then occs
      else applyLoop (byOccurrenceStart exs) windowStart windowEnd occs [])"

section \<open>The calendar store (package postgres)\<close>

text \<open>
  The database is a state: the rows of the three relations, in table order. Statements
  that only read are functions of the state; I/O failures of the driver are outside this
  model, except where the code branches on them.
\<close>

record db =
  db_appointments :: "Appointment list"
  db_recurring_series :: "RecurringSeries list"
  db_recurring_exceptions :: "RecurringException list"




definition ListRecurringExceptions ::
  "db \<Rightarrow> uuid \<Rightarrow> instant \<Rightarrow> instant \<Rightarrow> error + RecurringException list" where
  "ListRecurringExceptions d seriesID windowStart windowEnd =
     Inr (filter (\<lambda>e. e_SeriesID e = seriesID \<and> e_OccurrenceStart e \<ge> windowStart \<and>
                       e_OccurrenceStart e < windowEnd)
            (db_recurring_exceptions d))"


subsection \<open>The conflict checker (ensureNoRecurringSeriesConflicts)\<close>








subsection \<open>Listing occurrences (AppointmentRepo.ListOccurrences)\<close>

fun listOccurrencesLoop ::
  "tzdb \<Rightarrow> db \<Rightarrow> instant \<Rightarrow> instant \<Rightarrow> RecurringSeries list \<Rightarrow> RecurringOccurrence list \<Rightarrow>
   error + RecurringOccurrence list" where
  "listOccurrencesLoop tzdb d windowStart windowEnd [] out = Inr out"
| "listOccurrencesLoop tzdb d windowStart windowEnd (r # rest) out =
     (case GenerateWeeklyOccurrences tzdb r windowStart windowEnd of
        Inl err \<Rightarrow> Inl err
      | Inr occs \<Rightarrow>
          if length occs = 0 then listOccurrencesLoop tzdb d windowStart windowEnd rest out
          else (case ListRecurringExceptions d (s_ID r)
                       (Add windowStart (- 14 * 24 * time_Hour))
                       (Add windowEnd (14 * 24 * time_Hour)) of
                  Inl err \<Rightarrow> Inl err
                | Inr exRows \<Rightarrow>
                    listOccurrencesLoop tzdb d windowStart windowEnd rest
                      (out @ applyRecurringExceptions occs exRows windowStart windowEnd)))"

definition ListOccurrences ::
  "tzdb \<Rightarrow> db \<Rightarrow> string \<Rightarrow> instant \<Rightarrow> instant \<Rightarrow> error + RecurringOccurrence list" where
  "ListOccurrences tzdb d userID windowStart windowEnd =
     (let seriesRows = filter (\<lambda>r. s_UserID r = userID \<and> s_DTStart r < windowEnd)
                         (db_recurring_series d)
      in case listOccurrencesLoop tzdb d windowStart windowEnd seriesRows [] of
           Inl err \<Rightarrow> Inl err
         | Inr out \<Rightarrow> Inr (sort_key o_StartTime out))"

subsection \<open>Inserting an appointment (calendarTx.CreateAppointment)\<close>

text \<open>
  \<^verbatim>\<open>Appointment.BeforeAppendModel\<close> for an insert query. The clock reading \<^verbatim>\<open>time.Now()\<close>
  and the result of \<^verbatim>\<open>uuid.NewV7()\<close> are parameters.
\<close>

definition BeforeAppendModel ::
  "instant \<Rightarrow> error + uuid \<Rightarrow> Appointment \<Rightarrow> error + Appointment" where
  "BeforeAppendModel now newV7 a =
     (case (if a_ID a = uuid_Nil
            then (case newV7 of Inl err \<Rightarrow> Inl err | Inr u \<Rightarrow> Inr (a \<lparr> a_ID := u \<rparr>))
            else Inr a) of
        Inl err \<Rightarrow> Inl err
      | Inr a1 \<Rightarrow>
          let a2 = (if IsZero (a_CreatedAt a1) then a1 \<lparr> a_CreatedAt := now \<rparr> else a1);
              a3 = (if IsZero (a_UpdatedAt a2) then a2 \<lparr> a_UpdatedAt := now \<rparr> else a2)
          in Inr a3)"

text \<open>
  The appointments relation, as the migration creates it: the four time columns are
  \<^verbatim>\<open>TIMESTAMPTZ\<close>, so a stored instant keeps its microseconds and drops what lies below
  them; \<^verbatim>\<open>id\<close> is the primary key; the CHECK \<^verbatim>\<open>appointments_valid_time_range\<close>
  demands \<^verbatim>\<open>end_time > start_time\<close>; the exclusion constraint
  \<^verbatim>\<open>appointments_no_overlap\<close> forbids two rows of one user whose half-open ranges
  \<open>[start_time, end_time)\<close> overlap.
\<close>

definition timestamptz :: "instant \<Rightarrow> instant" where
  "timestamptz t = t - t mod 1000"

definition storedRow :: "Appointment \<Rightarrow> Appointment" where
  "storedRow m = m \<lparr> a_StartTime := timestamptz (a_StartTime m),
                      a_EndTime := timestamptz (a_EndTime m),
                      a_CreatedAt := timestamptz (a_CreatedAt m),
                      a_UpdatedAt := timestamptz (a_UpdatedAt m) \<rparr>"

text \<open>
  \<^verbatim>\<open>INSERT INTO appointments\<close> of one row. PostgreSQL tests the CHECK on the row to
  store, then the primary key (SQLSTATE 23505), then the exclusion constraint (SQLSTATE
  23P01), and reports the first that fails; so a row already stored under its id meets
  the unique-id signal, although it overlaps itself.
\<close>

definition insertAppointment :: "Appointment \<Rightarrow> Appointment list \<Rightarrow> error + Appointment list" where
  "insertAppointment m rows =
     (let row = storedRow m
      in if \<not> a_EndTime row > a_StartTime row
         then Inl (PgError ''23514'' ''appointments_valid_time_range'')
         else if \<exists>r \<in> set rows. a_ID r = a_ID row then Inl (PgError ''23505'' ''appointments_pkey'')
         else if \<exists>r \<in> set rows. a_UserID r = a_UserID row \<and>
                    a_StartTime row < a_EndTime r \<and> a_EndTime row > a_StartTime r
         then Inl (PgError ''23P01'' ''appointments_no_overlap'')
         else Inr (rows @ [row]))"

text \<open>\<^verbatim>\<open>SELECT ... WHERE id = ? LIMIT 1\<close>, scanned into one row.\<close>

definition selectAppointment :: "uuid \<Rightarrow> Appointment list \<Rightarrow> error + Appointment" where
  "selectAppointment u rows =
     (case find (\<lambda>r. a_ID r = u) rows of
        None \<Rightarrow> Inl (DriverError ''sql: no rows in result set'')
      | Some r \<Rightarrow> Inr r)"

definition CreateAppointment ::
  "instant \<Rightarrow> error + uuid \<Rightarrow> Appointment \<Rightarrow> db \<Rightarrow> (error + Appointment) \<times> db" where
  "CreateAppointment now newV7 appt d =
     (let m = \<lparr> a_ID = a_ID appt, a_UserID = a_UserID appt, a_Title = a_Title appt,
                a_Notes = a_Notes appt, a_StartTime = a_StartTime appt,
                a_EndTime = a_EndTime appt, a_CreatedAt = a_CreatedAt appt,
                a_UpdatedAt = a_UpdatedAt appt \<rparr>
      in case BeforeAppendModel now newV7 m of
           Inl err \<Rightarrow> (Inl err, d)
         | Inr m \<Rightarrow>
            (case insertAppointment m (db_appointments d) of
               Inl err \<Rightarrow>
                 (case err of
                    PgError code constraintName \<Rightarrow>
                      if code = ''23P01'' \<and> constraintName = ''appointments_no_overlap''
                      then (Inl ErrConflict, d)
                      else if code = ''23505''
                      then (case selectAppointment (a_ID m) (db_appointments d) of
                              Inl selectErr \<Rightarrow> (Inl err, d)
                            | Inr existing \<Rightarrow>
                                if a_UserID existing \<noteq> a_UserID appt \<or>
                                   a_Title existing \<noteq> a_Title appt \<or>
                                   a_Notes existing \<noteq> a_Notes appt \<or>
                                   \<not> Equal (a_StartTime existing) (a_StartTime appt) \<or>
                                   \<not> Equal (a_EndTime existing) (a_EndTime appt)
                                then (Inl ErrIdempotencyConflict, d)
                                else (Inr existing, d))
                      else (Inl err, d)
                  | _ \<Rightarrow> (Inl err, d))
             | Inr rows \<Rightarrow> (Inr (appt \<lparr> a_ID := a_ID m \<rparr>), d \<lparr> db_appointments := rows \<rparr>)))"

text \<open>
  \<^verbatim>\<open>AppointmentRepo.Create\<close> runs it in a transaction of its own: an error rolls the
  database back. (The per-user advisory lock orders concurrent transactions; one
  transaction is modelled at a time.)
\<close>

definition AppointmentRepo_Create ::
  "instant \<Rightarrow> error + uuid \<Rightarrow> Appointment \<Rightarrow> db \<Rightarrow> (error + Appointment) \<times> db" where
  "AppointmentRepo_Create now newV7 appt d =
     (case CreateAppointment now newV7 appt d of
        (Inl err, d') \<Rightarrow> (Inl err, d)
      | (Inr a, d') \<Rightarrow> (Inr a, d'))"

section \<open>The appointment service (package appointments)\<close>

subsection \<open>strings.TrimSpace\<close>

text \<open>
  A Go string is a byte sequence. \<^verbatim>\<open>strings.TrimSpace\<close> removes the leading and the
  trailing white space as Unicode defines it; these are the UTF-8 encodings of the code
  points \<^verbatim>\<open>unicode.IsSpace\<close> accepts: U+0009 to U+000D, U+0020, U+0085, U+00A0, U+1680,
  U+2000 to U+200A, U+2028, U+2029, U+202F, U+205F and U+3000.
\<close>

definition spaceRunes :: "string list" where
  "spaceRunes =
     [[CHR 0x09], [CHR 0x0A], [CHR 0x0B], [CHR 0x0C], [CHR 0x0D], [CHR 0x20],
      [CHR 0xC2, CHR 0x85], [CHR 0xC2, CHR 0xA0], [CHR 0xE1, CHR 0x9A, CHR 0x80],
      [CHR 0xE2, CHR 0x80, CHR 0x80], [CHR 0xE2, CHR 0x80, CHR 0x81],
      [CHR 0xE2, CHR 0x80, CHR 0x82], [CHR 0xE2, CHR 0x80, CHR 0x83],
      [CHR 0xE2, CHR 0x80, CHR 0x84], [CHR 0xE2, CHR 0x80, CHR 0x85],
      [CHR 0xE2, CHR 0x80, CHR 0x86], [CHR 0xE2, CHR 0x80, CHR 0x87],
      [CHR 0xE2, CHR 0x80, CHR 0x88], [CHR 0xE2, CHR 0x80, CHR 0x89],
      [CHR 0xE2, CHR 0x80, CHR 0x8A], [CHR 0xE2, CHR 0x80, CHR 0xA8],
      [CHR 0xE2, CHR 0x80, CHR 0xA9], [CHR 0xE2, CHR 0x80, CHR 0xAF],
      [CHR 0xE2, CHR 0x81, CHR 0x9F], [CHR 0xE3, CHR 0x80, CHR 0x80]]"

function trimLeading :: "string list \<Rightarrow> string \<Rightarrow> string" where
  "trimLeading runes s =
     (case find (\<lambda>r. r \<noteq> [] \<and> take (length r) s = r) runes of
        None \<Rightarrow> s
      | Some r \<Rightarrow> trimLeading runes (drop (length r) s))"
  by pat_completeness auto
termination
proof (relation "measure (\<lambda>(runes, s). length s)")
  show "wf (measure (\<lambda>(runes, s). length s))" by simp
next
  fix runes :: "string list" and s r :: string
  assume "find (\<lambda>r. r \<noteq> [] \<and> take (length r) s = r) runes = Some r"
  then have "r \<noteq> []" and t: "take (length r) s = r"
    by (auto simp: find_Some_iff)
  have "length (take (length r) s) \<le> length s" by simp
  with t have "length r \<le> length s" by simp
  with \<open>r \<noteq> []\<close> show "((runes, drop (length r) s), (runes, s)) \<in> measure (\<lambda>(runes, s). length s)"
    by (cases r) auto
qed

declare trimLeading.simps [simp del]

definition TrimSpace :: "string \<Rightarrow> string" where
  "TrimSpace s = rev (trimLeading (map rev spaceRunes) (rev (trimLeading spaceRunes s)))"

subsection \<open>Service.Create\<close>

record CreateInput =
  i_UserID :: string
  i_Title :: string
  i_Notes :: string
  i_StartTime :: instant
  i_EndTime :: instant
  i_IdempotencyKey :: string

definition uuid_NameSpaceOID :: uuid where
  "uuid_NameSpaceOID = 0x6ba7b8129dad11d180b400c04fd430c8"

text \<open>
  The repository is the interface \<^verbatim>\<open>store.AppointmentRepository\<close>: its \<^verbatim>\<open>Create\<close> is the
  parameter \<open>repo_Create\<close>, a function on the repository's state. \<^verbatim>\<open>uuid.NewSHA1\<close> (the
  name-based UUID of a namespace and a byte string) is the parameter \<open>NewSHA1\<close>. The zero
  \<^verbatim>\<open>uuid.UUID\<close> and the zero \<^verbatim>\<open>time.Time\<close> fill the fields the struct literal leaves out.
\<close>

definition Service_Create ::
  "(uuid \<Rightarrow> string \<Rightarrow> uuid) \<Rightarrow> (Appointment \<Rightarrow> 's \<Rightarrow> (error + Appointment) \<times> 's) \<Rightarrow>
   CreateInput \<Rightarrow> 's \<Rightarrow> (error + Appointment) \<times> 's" where
  "Service_Create NewSHA1 repo_Create inp st =
     (let title = TrimSpace (i_Title inp)
      in if title = [] then (Inl (ValidationError ''title is required''), st)
         else if i_UserID inp = [] then (Inl (ValidationError ''user_id is required''), st)
         else
           let start = i_StartTime inp;
               end = i_EndTime inp
           in if Equal end start \<or> Before end start
              then (Inl (ValidationError ''end_time must be after start_time''), st)
              else if Sub end start > 24 * time_Hour
              then (Inl (ValidationError ''duration too long''), st)
              else
                let appt = \<lparr> a_ID = uuid_Nil, a_UserID = i_UserID inp, a_Title = title,
                             a_Notes = i_Notes inp, a_StartTime = start, a_EndTime = end,
                             a_CreatedAt = zeroTime, a_UpdatedAt = zeroTime \<rparr>;
                    key = TrimSpace (i_IdempotencyKey inp)
                in if key \<noteq> []
                   then if length key > 256
                        then (Inl (ValidationError ''idempotency_key too long''), st)
                        else repo_Create
                               (appt \<lparr> a_ID := NewSHA1 uuid_NameSpaceOID
                                   (''schedula:create_appointment:'' @ i_UserID inp @ '':'' @ key) \<rparr>)
                               st
                   else repo_Create appt st)"

subsection \<open>Service.CreateRecurringSeries\<close>






section \<open>Notions the properties are stated in\<close>

subsection \<open>The exception merger, as the specification words it\<close>

text \<open>
  The exception that applies to an occurrence: the one indexed under the UTC nanosecond of
  the occurrence's start (the last one in the slice, should several share that key).
\<close>

definition matchingException ::
  "RecurringException list \<Rightarrow> RecurringOccurrence \<Rightarrow> RecurringException option" where
  "matchingException exs oc =
     find (\<lambda>e. UnixNano (e_OccurrenceStart e) = UnixNano (o_StartTime oc)) (rev exs)"

text \<open>
  An override replaces start, end, title and notes by its present fields and keeps the
  original where a field is absent; id, series and user stay.
\<close>

definition overridden :: "RecurringOccurrence \<Rightarrow> RecurringException \<Rightarrow> RecurringOccurrence" where
  "overridden oc ex =
     oc \<lparr> o_Title := (case e_OverrideTitle ex of None \<Rightarrow> o_Title oc | Some s \<Rightarrow> s),
          o_Notes := (case e_OverrideNotes ex of None \<Rightarrow> o_Notes oc | Some s \<Rightarrow> s),
          o_StartTime := (case e_OverrideStart ex of None \<Rightarrow> o_StartTime oc | Some t \<Rightarrow> t),
          o_EndTime := (case e_OverrideEnd ex of None \<Rightarrow> o_EndTime oc | Some t \<Rightarrow> t) \<rparr>"

text \<open>
  What the loop of the merger does with one occurrence: passed through without a matching
  exception, dropped by a skip, rewritten by an override and then kept when its start
  lies before the end of the window and its end after the start of the window.
\<close>

definition loopOutcome ::
  "RecurringException list \<Rightarrow> instant \<Rightarrow> instant \<Rightarrow> RecurringOccurrence \<Rightarrow>
   RecurringOccurrence list" where
  "loopOutcome exs windowStart windowEnd oc =
     (case matchingException exs oc of
        None \<Rightarrow> [oc]
      | Some ex \<Rightarrow>
          if e_Kind ex = ''skip'' then []
          else if o_StartTime (overridden oc ex) < windowEnd \<and>
                  windowStart < o_EndTime (overridden oc ex)
          then [overridden oc ex]
          else [])"

text \<open>
  The half-open intervals \<open>[s, e)\<close> and \<open>[ws, we)\<close> intersect: some instant lies in both,
  which is to say that the later of the two starts lies before the earlier of the two
  ends.
\<close>

definition intersectsWindow :: "instant \<Rightarrow> instant \<Rightarrow> instant \<Rightarrow> instant \<Rightarrow> bool" where
  "intersectsWindow s e ws we = (max s ws < min e we)"

text \<open>
  What becomes of one occurrence, as the specification words it: passed through without
  a matching exception, dropped by a skip, rewritten by an override and kept iff the
  rewritten interval still intersects the window.
\<close>

definition mergedOutcome ::
  "RecurringException list \<Rightarrow> instant \<Rightarrow> instant \<Rightarrow> RecurringOccurrence \<Rightarrow>
   RecurringOccurrence list" where
  "mergedOutcome exs windowStart windowEnd oc =
     (case matchingException exs oc of
        None \<Rightarrow> [oc]
      | Some ex \<Rightarrow>
          if e_Kind ex = ''skip'' then []
          else if intersectsWindow (o_StartTime (overridden oc ex))
                    (o_EndTime (overridden oc ex)) windowStart windowEnd
          then [overridden oc ex]
          else [])"

subsection \<open>The payload of an appointment\<close>

text \<open>The fields the store compares on an idempotent replay: user, title, notes, start, end.\<close>

definition samePayload :: "Appointment \<Rightarrow> Appointment \<Rightarrow> bool" where
  "samePayload a b =
     (a_UserID a = a_UserID b \<and> a_Title a = a_Title b \<and> a_Notes a = a_Notes b \<and>
      a_StartTime a = a_StartTime b \<and> a_EndTime a = a_EndTime b)"

subsection \<open>Keys made of white space\<close>

text \<open>A string that consists only of white space: a sequence of encoded white-space code points.\<close>

inductive whiteSpaceOnly :: "string \<Rightarrow> bool" where
  empty: "whiteSpaceOnly []"
| rune: "r \<in> set spaceRunes \<Longrightarrow> whiteSpaceOnly s \<Longrightarrow> whiteSpaceOnly (r @ s)"

text \<open>The number of bytes of the UTF-8 encoding that starts with a given byte (up to three).\<close>

definition runeLength :: "char \<Rightarrow> nat" where
  "runeLength c = (if (of_char c :: nat) < 0x80 then 1
                   else if (of_char c :: nat) < 0xE0 then 2 else 3)"

text \<open>The appointment Service.Create builds from an input before it looks at the key.\<close>

definition apptOf :: "CreateInput \<Rightarrow> Appointment" where
  "apptOf inp = \<lparr> a_ID = uuid_Nil, a_UserID = i_UserID inp, a_Title = TrimSpace (i_Title inp),
                  a_Notes = i_Notes inp, a_StartTime = i_StartTime inp,
                  a_EndTime = i_EndTime inp, a_CreatedAt = zeroTime, a_UpdatedAt = zeroTime \<rparr>"

definition validFields :: "CreateInput \<Rightarrow> bool" where
  "validFields inp =
     (TrimSpace (i_Title inp) \<noteq> [] \<and> i_UserID inp \<noteq> [] \<and> i_StartTime inp < i_EndTime inp \<and>
      i_EndTime inp - i_StartTime inp \<le> 24 * time_Hour)"

subsection \<open>The identity of a keyed create\<close>



subsection \<open>The horizon of a new series\<close>



subsection \<open>The existing spans of a user's calendar\<close>





subsection \<open>Occurrences of a series\<close>

text \<open>The occurrence of a series that starts at a given instant.\<close>

definition occurrenceAt :: "RecurringSeries \<Rightarrow> instant \<Rightarrow> RecurringOccurrence" where
  "occurrenceAt series startUTC =
     \<lparr> o_ID = FormatInt (UnixNano startUTC), o_SeriesID = s_ID series,
       o_UserID = s_UserID series, o_Title = s_Title series, o_Notes = s_Notes series,
       o_StartTime = startUTC, o_EndTime = startUTC + s_DurationSeconds series * time_Second \<rparr>"

text \<open>
  The Monday of the week with index \<open>k\<close>, counted in steps of the interval from the week of
  the series' start, as the week loop computes it.
\<close>

definition weekStart :: "locals \<Rightarrow> int \<Rightarrow> instant" where
  "weekStart l k = AddDate_days (l_startWeekMondayUTC l) (k * interval (l_series l) * 7)"

text \<open>The tests the inner loop makes on a candidate start \<open>s\<close>, in its order.\<close>

definition cand :: "locals \<Rightarrow> instant \<Rightarrow> int \<Rightarrow> instant" where
  "cand l wk wd = candidateStart (l_series l) (l_loc l) wk wd"

definition untilCut :: "locals \<Rightarrow> instant \<Rightarrow> bool" where
  "untilCut l s = (case s_Until (l_series l) of None \<Rightarrow> False | Some u \<Rightarrow> s > u)"

definition countCut :: "locals \<Rightarrow> int \<Rightarrow> int \<Rightarrow> bool" where
  "countCut l k j =
     (0 \<le> maxCount (l_series l) \<and>
      maxCount (l_series l) \<le> k * int (length (l_weekdays l)) + j - l_skippedInFirstWeek l)"

definition meetsWindow :: "locals \<Rightarrow> instant \<Rightarrow> bool" where
  "meetsWindow l s =
     (s < l_windowEnd l \<and> l_windowStart l < s + s_DurationSeconds (l_series l) * time_Second)"

text \<open>
  The values GenerateWeeklyOccurrences computes before its week loop, for a series that
  passes its checks in a location: the sorted weekdays, the loop's local variables and the
  index of the first week it scans.
\<close>

definition weekdaysOf :: "RecurringSeries \<Rightarrow> int list" where
  "weekdaysOf series =
     (case weekdaysLoop (s_ByWeekday series) [] of Inl err \<Rightarrow> [] | Inr ws \<Rightarrow> sort ws)"

definition localsOf :: "RecurringSeries \<Rightarrow> Location \<Rightarrow> instant \<Rightarrow> instant \<Rightarrow> locals" where
  "localsOf series loc windowStart windowEnd =
     \<lparr> l_series = series, l_loc = loc, l_windowStart = windowStart,
       l_windowEnd = windowEnd, l_weekdays = weekdaysOf series,
       l_startWeekMondayUTC = mondayDateUTC (In (s_DTStart series) loc),
       l_windowEndWeekBoundaryUTC = AddDate_days (mondayDateUTC (In windowEnd loc)) 7,
       l_skippedInFirstWeek =
         skippedLoop series loc (mondayDateUTC (In (s_DTStart series) loc)) (weekdaysOf series) 0 \<rparr>"

definition startWeekIndexOf :: "RecurringSeries \<Rightarrow> Location \<Rightarrow> instant \<Rightarrow> int" where
  "startWeekIndexOf series loc windowStart =
     (if mondayDateUTC (In windowStart loc) > mondayDateUTC (In (s_DTStart series) loc)
      then max 0 (quo (quo (Sub (mondayDateUTC (In windowStart loc))
                                (mondayDateUTC (In (s_DTStart series) loc)))
                           (24 * time_Hour))
                      (7 * interval series))
      else 0)"

subsection \<open>Wall-clock readings and well-formed zone tables\<close>

text \<open>
  The Unix second \<^verbatim>\<open>time.Date\<close> settles on for a wall-clock reading, given as the
  seconds of the local date and time counted as if they were UTC.
\<close>

definition wallSecond :: "Location \<Rightarrow> int \<Rightarrow> int" where
  "wallSecond loc unix =
     (let (offset, start, end) = lookup loc unix
      in if offset \<noteq> 0
         then (let utc = unix - offset;
                   offset' = (if (case start of None \<Rightarrow> False | Some a \<Rightarrow> utc < a) \<or>
                                 (case end of None \<Rightarrow> False | Some z \<Rightarrow> utc \<ge> z)
                              then fst (lookup loc utc) else offset)
               in unix - offset')
         else unix)"

text \<open>The wall-clock reading a Unix second shows in a location, in the same unit.\<close>

definition wallReading :: "Location \<Rightarrow> int \<Rightarrow> int" where
  "wallReading loc u = u + fst (lookup loc u)"

text \<open>
  The offsets of a zone table, and the largest absolute value among them. A table is
  well-formed when each transition lies more than twice that value after the one before.
\<close>

definition offsetsOf :: "Location \<Rightarrow> int list" where
  "offsetsOf loc = zoneFirst loc # map snd (zoneTrans loc)"

definition maxAbsOffset :: "Location \<Rightarrow> int" where
  "maxAbsOffset loc = foldr (\<lambda>off m. max \<bar>off\<bar> m) (offsetsOf loc) 0"

definition wfLocation :: "Location \<Rightarrow> bool" where
  "wfLocation loc =
     sorted_wrt (\<lambda>a b. fst a + 2 * maxAbsOffset loc < fst b) (zoneTrans loc)"

section \<open>Concrete inputs\<close>

subsection \<open>Occurrences and exceptions\<close>

definition occA :: RecurringOccurrence where
  "occA = \<lparr> o_ID = ''100'', o_SeriesID = 1, o_UserID = ''u1'', o_Title = ''t1'',
            o_Notes = ''n1'', o_StartTime = 100, o_EndTime = 200 \<rparr>"

definition occB :: RecurringOccurrence where
  "occB = \<lparr> o_ID = ''300'', o_SeriesID = 1, o_UserID = ''u1'', o_Title = ''t2'',
            o_Notes = ''n2'', o_StartTime = 300, o_EndTime = 400 \<rparr>"

definition occC :: RecurringOccurrence where
  "occC = \<lparr> o_ID = ''500'', o_SeriesID = 1, o_UserID = ''u1'', o_Title = ''t3'',
            o_Notes = ''n3'', o_StartTime = 500, o_EndTime = 600 \<rparr>"

definition exSkipA :: RecurringException where
  "exSkipA = \<lparr> e_ID = 11, e_SeriesID = 1, e_OccurrenceStart = 100, e_Kind = ''skip'',
               e_OverrideStart = None, e_OverrideEnd = None, e_OverrideTitle = None,
               e_OverrideNotes = None, e_CreatedAt = 0, e_UpdatedAt = 0 \<rparr>"

definition exMoveB :: RecurringException where
  "exMoveB = \<lparr> e_ID = 12, e_SeriesID = 1, e_OccurrenceStart = 300, e_Kind = ''override'',
               e_OverrideStart = Some 350, e_OverrideEnd = None, e_OverrideTitle = Some ''moved'',
               e_OverrideNotes = None, e_CreatedAt = 0, e_UpdatedAt = 0 \<rparr>"

definition exNearC :: RecurringException where
  "exNearC = \<lparr> e_ID = 13, e_SeriesID = 1, e_OccurrenceStart = 501, e_Kind = ''override'',
               e_OverrideStart = None, e_OverrideEnd = None, e_OverrideTitle = Some ''missed'',
               e_OverrideNotes = None, e_CreatedAt = 0, e_UpdatedAt = 0 \<rparr>"

text \<open>An override that moves only the start of the third occurrence, past its end.\<close>

definition exLateC :: RecurringException where
  "exLateC = \<lparr> e_ID = 14, e_SeriesID = 1, e_OccurrenceStart = 500, e_Kind = ''override'',
               e_OverrideStart = Some 700, e_OverrideEnd = None, e_OverrideTitle = None,
               e_OverrideNotes = None, e_CreatedAt = 0, e_UpdatedAt = 0 \<rparr>"

subsection \<open>Appointments\<close>

definition apptNew :: Appointment where
  "apptNew = \<lparr> a_ID = uuid_Nil, a_UserID = ''u1'', a_Title = ''t'', a_Notes = '''',
               a_StartTime = 1000, a_EndTime = 2000,
               a_CreatedAt = zeroTime, a_UpdatedAt = zeroTime \<rparr>"

definition dbEmpty :: db where
  "dbEmpty = \<lparr> db_appointments = [], db_recurring_series = [], db_recurring_exceptions = [] \<rparr>"

definition apptStored :: Appointment where
  "apptStored = \<lparr> a_ID = 42, a_UserID = ''u1'', a_Title = ''t'', a_Notes = '''',
                  a_StartTime = 1000, a_EndTime = 2000, a_CreatedAt = 5000, a_UpdatedAt = 5000 \<rparr>"

definition dbOne :: db where
  "dbOne = \<lparr> db_appointments = [apptStored], db_recurring_series = [],
             db_recurring_exceptions = [] \<rparr>"

definition inputK1 :: CreateInput where
  "inputK1 = \<lparr> i_UserID = ''u1'', i_Title = ''t'', i_Notes = '''', i_StartTime = 1000,
               i_EndTime = 2000, i_IdempotencyKey = ''k1'' \<rparr>"



definition inputBlankKey :: CreateInput where
  "inputBlankKey = inputK1 \<lparr> i_IdempotencyKey := [CHR 0x20, CHR 0x09, CHR 0xC2, CHR 0xA0] \<rparr>"

definition inputPaddedKey :: CreateInput where
  "inputPaddedKey = inputK1 \<lparr> i_IdempotencyKey := replicate 300 (CHR 0x20) @ ''k1'' \<rparr>"

subsection \<open>Time zones\<close>

text \<open>
  The zone America/New_York around 2026, as the time zone database has it: Eastern
  Standard Time (UTC-5) until 2026-03-08 07:00 UTC, Eastern Daylight Time (UTC-4) from
  then until 2026-11-01 06:00 UTC, standard time again after that.
\<close>

definition America_New_York :: Location where
  "America_New_York =
     \<lparr> zoneFirst = - 18000,
       zoneTrans = [(daysFromCivil 2026 3 8 * 86400 + 7 * 3600, - 14400),
                    (daysFromCivil 2026 11 1 * 86400 + 6 * 3600, - 18000)] \<rparr>"

definition tzdata :: tzdb where
  "tzdata = [''UTC'' \<mapsto> UTC, ''America/New_York'' \<mapsto> America_New_York]"

subsection \<open>Scenario S5: a weekly series across the start of daylight saving time\<close>

definition seriesS5 :: RecurringSeries where
  "seriesS5 =
     \<lparr> s_ID = 5, s_UserID = ''u1'', s_Title = ''title'', s_Notes = '''',
       s_Timezone = ''America/New_York'',
       s_DTStart = Date (daysFromCivil 2026 3 1) 9 0 0 0 America_New_York,
       s_DurationSeconds = 3600, s_Frequency = RecurrenceFrequencyWeekly,
       s_Interval = 1, s_ByWeekday = [7], s_Until = None, s_Count = Some 4,
       s_CreatedAt = 0, s_UpdatedAt = 0 \<rparr>"

definition dbS5 :: db where
  "dbS5 = \<lparr> db_appointments = [], db_recurring_series = [seriesS5],
             db_recurring_exceptions = [] \<rparr>"

definition occurrenceS5 :: "instant \<Rightarrow> RecurringOccurrence" where
  "occurrenceS5 t =
     \<lparr> o_ID = FormatInt (UnixNano t), o_SeriesID = 5, o_UserID = ''u1'', o_Title = ''title'',
       o_Notes = '''', o_StartTime = t, o_EndTime = t + 3600 * time_Second \<rparr>"

subsection \<open>Inputs of CreateRecurringSeries\<close>






subsection \<open>Scenario S6: a new series against an existing appointment\<close>



subsection \<open>Scenario S5 with the second occurrence moved\<close>

definition exMoveS5 :: RecurringException where
  "exMoveS5 = \<lparr> e_ID = 51, e_SeriesID = 5, e_OccurrenceStart = utcDate 2026 3 8 13 0 0,
                e_Kind = ''override'', e_OverrideStart = Some (utcDate 2026 3 8 15 0 0),
                e_OverrideEnd = Some (utcDate 2026 3 8 16 0 0), e_OverrideTitle = None,
                e_OverrideNotes = None, e_CreatedAt = 0, e_UpdatedAt = 0 \<rparr>"

definition movedS5 :: RecurringOccurrence where
  "movedS5 = \<lparr> o_ID = ''1772974800000000000'', o_SeriesID = 5, o_UserID = ''u1'',
               o_Title = ''title'', o_Notes = '''', o_StartTime = utcDate 2026 3 8 15 0 0,
               o_EndTime = utcDate 2026 3 8 16 0 0 \<rparr>"

subsection \<open>A weekly series whose local time falls into the gap of a clock change\<close>

text \<open>
  Sundays at 02:30 in America/New_York from 2026-03-01 on. On 2026-03-08 the clocks go
  from 02:00 straight to 03:00, so that day has no 02:30.
\<close>

definition seriesGap :: RecurringSeries where
  "seriesGap =
     \<lparr> s_ID = 6, s_UserID = ''u1'', s_Title = ''title'', s_Notes = '''',
       s_Timezone = ''America/New_York'',
       s_DTStart = Date (daysFromCivil 2026 3 1) 2 30 0 0 America_New_York,
       s_DurationSeconds = 3600, s_Frequency = RecurrenceFrequencyWeekly,
       s_Interval = 1, s_ByWeekday = [7], s_Until = None, s_Count = None,
       s_CreatedAt = 0, s_UpdatedAt = 0 \<rparr>"

definition occurrenceGap :: "instant \<Rightarrow> RecurringOccurrence" where
  "occurrenceGap t =
     \<lparr> o_ID = FormatInt (UnixNano t), o_SeriesID = 6, o_UserID = ''u1'', o_Title = ''title'',
       o_Notes = '''', o_StartTime = t, o_EndTime = t + 3600 * time_Second \<rparr>"

section \<open>Properties of the exception merger\<close>

lemma find_append_case:
  "find P (xs @ ys) = (case find P xs of None \<Rightarrow> find P ys | Some x \<Rightarrow> Some x)"
  by (induction xs) auto

lemma indexLoop_lookup:
  "indexLoop exs m0 k =
     (case find (\<lambda>e. UnixNano (e_OccurrenceStart e) = k) (rev exs) of
        None \<Rightarrow> m0 k | Some e \<Rightarrow> Some e)"
proof (induction exs arbitrary: m0)
  case Nil
  then show ?case by simp
next
  case (Cons e exs)
  show ?case
    by (simp add: Cons.IH find_append_case split: option.splits)
qed

lemma byOccurrenceStart_lookup:
  "byOccurrenceStart exs (UnixNano (o_StartTime oc)) = matchingException exs oc"
  by (simp add: byOccurrenceStart_def matchingException_def indexLoop_lookup split: option.splits)

lemma overridden_literal:
  "\<lparr> o_ID = o_ID oc, o_SeriesID = o_SeriesID oc, o_UserID = o_UserID oc,
     o_Title = (case e_OverrideTitle ex of None \<Rightarrow> o_Title oc | Some s \<Rightarrow> s),
     o_Notes = (case e_OverrideNotes ex of None \<Rightarrow> o_Notes oc | Some s \<Rightarrow> s),
     o_StartTime = (case e_OverrideStart ex of None \<Rightarrow> o_StartTime oc | Some t \<Rightarrow> t),
     o_EndTime = (case e_OverrideEnd ex of None \<Rightarrow> o_EndTime oc | Some t \<Rightarrow> t) \<rparr> = overridden oc ex"
  by (simp add: overridden_def)

lemma overridden_times:
  "o_StartTime (overridden oc ex) = (case e_OverrideStart ex of None \<Rightarrow> o_StartTime oc | Some t \<Rightarrow> t)"
  "o_EndTime (overridden oc ex) = (case e_OverrideEnd ex of None \<Rightarrow> o_EndTime oc | Some t \<Rightarrow> t)"
  by (simp_all add: overridden_def)

lemma overridden_keeps:
  "o_ID (overridden oc ex) = o_ID oc"
  "o_SeriesID (overridden oc ex) = o_SeriesID oc"
  "o_UserID (overridden oc ex) = o_UserID oc"
  by (simp_all add: overridden_def)

lemma applyLoop_concat:
  "applyLoop (byOccurrenceStart exs) ws we occs out =
     out @ concat (map (loopOutcome exs ws we) occs)"
proof (induction occs arbitrary: out)
  case Nil
  then show ?case by simp
next
  case (Cons oc occs)
  show ?case
  proof (cases "matchingException exs oc")
    case None
    then show ?thesis
      by (simp add: Cons.IH byOccurrenceStart_lookup loopOutcome_def)
  next
    case (Some ex)
    then show ?thesis
      unfolding applyLoop.simps byOccurrenceStart_lookup Let_def overridden_literal
      by (simp add: Cons.IH loopOutcome_def Before_def After_def
          RecurringExceptionKindSkip_def overridden_times)
  qed
qed

lemma applyRecurringExceptions_concat:
  "applyRecurringExceptions occs exs ws we = concat (map (loopOutcome exs ws we) occs)"
proof (cases exs)
  case Nil
  have "concat (map (\<lambda>oc. [oc]) occs) = occs" by (induction occs) auto
  moreover have "loopOutcome [] ws we = (\<lambda>oc. [oc])"
    by (rule ext) (simp add: loopOutcome_def matchingException_def)
  ultimately show ?thesis using Nil
    by (simp add: applyRecurringExceptions_def)
next
  case (Cons e es)
  then show ?thesis by (simp add: applyRecurringExceptions_def applyLoop_concat)
qed

lemma UnixNano_inj_inInt64:
  "inInt64 a \<Longrightarrow> inInt64 b \<Longrightarrow> (UnixNano a = UnixNano b) = (a = b)"
  by (auto simp: UnixNano_def inInt64_def)

lemma UnixNano_near:
  assumes ne: "a \<noteq> b" and near: "\<bar>a - b\<bar> < 2 ^ 64"
  shows "UnixNano a \<noteq> UnixNano b"
proof
  assume eq: "UnixNano a = UnixNano b"
  from eq have "(a + 2 ^ 63) mod 2 ^ 64 = (b + 2 ^ 63) mod 2 ^ 64"
    by (simp add: UnixNano_def)
  then have "(2::int) ^ 64 dvd (a + 2 ^ 63) - (b + 2 ^ 63)"
    by (simp add: mod_eq_dvd_iff)
  then have "(2::int) ^ 64 dvd a - b" by simp
  then obtain k where k: "a - b = 2 ^ 64 * k" by (auto simp: dvd_def)
  with ne have "k \<noteq> 0" by auto
  then have "\<bar>k\<bar> \<ge> 1" by simp
  then have "\<bar>a - b\<bar> \<ge> 2 ^ 64" unfolding k by (simp add: abs_mult)
  with near show False by simp
qed

lemma find_Some_in:
  "find P xs = Some x \<Longrightarrow> x \<in> set xs \<and> P x"
  by (induction xs) (auto split: if_splits)

lemma find_distinct_key:
  "distinct (map f xs) \<Longrightarrow> e \<in> set xs \<Longrightarrow> (find (\<lambda>x. f x = k) xs = Some e) = (f e = k)"
proof (induction xs)
  case Nil
  then show ?case by simp
next
  case (Cons x xs)
  then show ?case by (auto simp: image_iff dest: find_Some_in)
qed

lemma matchingException_None:
  "(matchingException exs oc = None) =
     (\<forall>e \<in> set exs. UnixNano (e_OccurrenceStart e) \<noteq> UnixNano (o_StartTime oc))"
  by (auto simp: matchingException_def find_None_iff)

lemma matchingException_Some:
  "matchingException exs oc = Some ex \<Longrightarrow>
     ex \<in> set exs \<and> UnixNano (e_OccurrenceStart ex) = UnixNano (o_StartTime oc)"
  using find_Some_in [of "\<lambda>e. UnixNano (e_OccurrenceStart e) = UnixNano (o_StartTime oc)" "rev exs" ex]
  by (simp add: matchingException_def)

lemma matchingException_distinct:
  assumes "distinct (map (\<lambda>e. UnixNano (e_OccurrenceStart e)) exs)" and "e \<in> set exs"
  shows "(matchingException exs oc = Some e) =
           (UnixNano (e_OccurrenceStart e) = UnixNano (o_StartTime oc))"
proof -
  have "distinct (map (\<lambda>e. UnixNano (e_OccurrenceStart e)) (rev exs))"
    using assms(1) by (simp add: rev_map [symmetric])
  moreover have "e \<in> set (rev exs)" using assms(2) by simp
  ultimately show ?thesis
    unfolding matchingException_def by (rule find_distinct_key)
qed

lemma intersectsWindow_iff:
  "intersectsWindow s e ws we = (\<exists>t. s \<le> t \<and> t < e \<and> ws \<le> t \<and> t < we)"
proof
  assume "intersectsWindow s e ws we"
  then have "s \<le> max s ws \<and> max s ws < e \<and> ws \<le> max s ws \<and> max s ws < we"
    by (simp add: intersectsWindow_def)
  then show "\<exists>t. s \<le> t \<and> t < e \<and> ws \<le> t \<and> t < we" by blast
next
  assume "\<exists>t. s \<le> t \<and> t < e \<and> ws \<le> t \<and> t < we"
  then show "intersectsWindow s e ws we" by (auto simp: intersectsWindow_def)
qed

lemma intersectsWindow_proper:
  "s < e \<Longrightarrow> ws < we \<Longrightarrow> intersectsWindow s e ws we = (s < we \<and> ws < e)"
  by (auto simp: intersectsWindow_def)

lemma loopOutcome_proper:
  assumes "windowStart < windowEnd"
    and "\<forall>ex. matchingException exs oc = Some ex \<and> e_Kind ex \<noteq> ''skip'' \<longrightarrow>
           o_StartTime (overridden oc ex) < o_EndTime (overridden oc ex)"
  shows "loopOutcome exs windowStart windowEnd oc = mergedOutcome exs windowStart windowEnd oc"
proof (cases "matchingException exs oc")
  case None
  then show ?thesis by (simp add: loopOutcome_def mergedOutcome_def)
next
  case (Some ex)
  show ?thesis
  proof (cases "e_Kind ex = ''skip''")
    case True
    with Some show ?thesis by (simp add: loopOutcome_def mergedOutcome_def)
  next
    case False
    with Some assms(2) have "o_StartTime (overridden oc ex) < o_EndTime (overridden oc ex)"
      by blast
    from intersectsWindow_proper [OF this assms(1)] Some False show ?thesis
      by (simp add: loopOutcome_def mergedOutcome_def)
  qed
qed

text \<open>
  C5, as far as it holds. The merger maps every occurrence, in order, to its outcome: an
  occurrence without a matching exception is passed through unchanged, a matching skip
  removes it, a matching override rewrites start, end, title and notes by its present
  fields and keeps the result iff the rewritten start lies before the end of the window
  and the rewritten end after its start. For a window that is not empty and overrides
  that leave start before end, that is: iff the rewritten interval [start, end) still
  intersects the window (some instant lies in both). An exception matches an occurrence
  iff the UTC nanoseconds of its occurrence start and of the occurrence's start are equal
  (for a set of exceptions with distinct keys; with equal keys the last one wins).
  Instants that differ by less than 2^64 ns, a near miss of one nanosecond among them,
  never match, and for instants in the int64 nanosecond range equal keys are equal
  instants.
\<close>

theorem applyRecurringExceptions_merges:
  "applyRecurringExceptions occs exs windowStart windowEnd
     = concat (map (loopOutcome exs windowStart windowEnd) occs)
   \<and> (windowStart < windowEnd \<and>
      (\<forall>oc \<in> set occs. \<forall>ex. matchingException exs oc = Some ex \<and> e_Kind ex \<noteq> ''skip'' \<longrightarrow>
           o_StartTime (overridden oc ex) < o_EndTime (overridden oc ex))
      \<longrightarrow> applyRecurringExceptions occs exs windowStart windowEnd
            = concat (map (mergedOutcome exs windowStart windowEnd) occs))
   \<and> (\<forall>s e. intersectsWindow s e windowStart windowEnd
              = (\<exists>t. s \<le> t \<and> t < e \<and> windowStart \<le> t \<and> t < windowEnd))
   \<and> (\<forall>oc. (matchingException exs oc = None) =
             (\<forall>e \<in> set exs. UnixNano (e_OccurrenceStart e) \<noteq> UnixNano (o_StartTime oc)))
   \<and> (distinct (map (\<lambda>e. UnixNano (e_OccurrenceStart e)) exs) \<longrightarrow>
        (\<forall>e \<in> set exs. \<forall>oc. (matchingException exs oc = Some e) =
             (UnixNano (e_OccurrenceStart e) = UnixNano (o_StartTime oc))))
   \<and> (\<forall>e \<in> set exs. \<forall>oc.
         e_OccurrenceStart e \<noteq> o_StartTime oc \<and> \<bar>e_OccurrenceStart e - o_StartTime oc\<bar> < 2 ^ 64
           \<longrightarrow> matchingException exs oc \<noteq> Some e)
   \<and> (\<forall>e \<in> set exs. \<forall>oc :: RecurringOccurrence.
         inInt64 (e_OccurrenceStart e) \<and> inInt64 (o_StartTime oc) \<longrightarrow>
         (UnixNano (e_OccurrenceStart e) = UnixNano (o_StartTime oc)) =
         (e_OccurrenceStart e = o_StartTime oc))"
proof -
  have p1: "applyRecurringExceptions occs exs windowStart windowEnd
     = concat (map (loopOutcome exs windowStart windowEnd) occs)"
    by (rule applyRecurringExceptions_concat)
  have p2: "windowStart < windowEnd \<and>
      (\<forall>oc \<in> set occs. \<forall>ex. matchingException exs oc = Some ex \<and> e_Kind ex \<noteq> ''skip'' \<longrightarrow>
           o_StartTime (overridden oc ex) < o_EndTime (overridden oc ex))
      \<longrightarrow> applyRecurringExceptions occs exs windowStart windowEnd
            = concat (map (mergedOutcome exs windowStart windowEnd) occs)"
  proof
    assume a: "windowStart < windowEnd \<and>
      (\<forall>oc \<in> set occs. \<forall>ex. matchingException exs oc = Some ex \<and> e_Kind ex \<noteq> ''skip'' \<longrightarrow>
           o_StartTime (overridden oc ex) < o_EndTime (overridden oc ex))"
    have "map (loopOutcome exs windowStart windowEnd) occs
            = map (mergedOutcome exs windowStart windowEnd) occs"
    proof (rule map_cong [OF refl])
      fix oc assume "oc \<in> set occs"
      with a show "loopOutcome exs windowStart windowEnd oc = mergedOutcome exs windowStart windowEnd oc"
        by (intro loopOutcome_proper) blast+
    qed
    with p1 show "applyRecurringExceptions occs exs windowStart windowEnd
            = concat (map (mergedOutcome exs windowStart windowEnd) occs)"
      by simp
  qed
  have p3: "\<forall>s e. intersectsWindow s e windowStart windowEnd
              = (\<exists>t. s \<le> t \<and> t < e \<and> windowStart \<le> t \<and> t < windowEnd)"
    by (simp add: intersectsWindow_iff)
  have p4: "\<forall>oc. (matchingException exs oc = None) =
             (\<forall>e \<in> set exs. UnixNano (e_OccurrenceStart e) \<noteq> UnixNano (o_StartTime oc))"
    by (simp add: matchingException_None)
  have p5: "distinct (map (\<lambda>e. UnixNano (e_OccurrenceStart e)) exs) \<longrightarrow>
        (\<forall>e \<in> set exs. \<forall>oc. (matchingException exs oc = Some e) =
             (UnixNano (e_OccurrenceStart e) = UnixNano (o_StartTime oc)))"
    using matchingException_distinct by blast
  have p6: "\<forall>e \<in> set exs. \<forall>oc.
         e_OccurrenceStart e \<noteq> o_StartTime oc \<and> \<bar>e_OccurrenceStart e - o_StartTime oc\<bar> < 2 ^ 64
           \<longrightarrow> matchingException exs oc \<noteq> Some e"
  proof (intro ballI allI impI)
    fix e and oc :: RecurringOccurrence
    assume "e \<in> set exs"
      and "e_OccurrenceStart e \<noteq> o_StartTime oc \<and> \<bar>e_OccurrenceStart e - o_StartTime oc\<bar> < 2 ^ 64"
    then have "UnixNano (e_OccurrenceStart e) \<noteq> UnixNano (o_StartTime oc)"
      using UnixNano_near by blast
    then show "matchingException exs oc \<noteq> Some e"
      using matchingException_Some by blast
  qed
  have p7: "\<forall>e \<in> set exs. \<forall>oc :: RecurringOccurrence.
         inInt64 (e_OccurrenceStart e) \<and> inInt64 (o_StartTime oc) \<longrightarrow>
         (UnixNano (e_OccurrenceStart e) = UnixNano (o_StartTime oc)) =
         (e_OccurrenceStart e = o_StartTime oc)"
    using UnixNano_inj_inInt64 by blast
  from p1 p2 p3 p4 p5 p6 p7 show ?thesis by (intro conjI)
qed

lemma example_keys:
  "UnixNano 100 = 100" "UnixNano 300 = 300" "UnixNano 500 = 500" "UnixNano 501 = 501"
  by (simp_all add: UnixNano_def)

theorem applyRecurringExceptions_merges_witness:
  "applyRecurringExceptions [occA, occB, occC] [exSkipA, exMoveB, exNearC] 0 1000
     = [occB \<lparr> o_Title := ''moved'', o_StartTime := 350 \<rparr>, occC]
   \<and> concat (map (mergedOutcome [exSkipA, exMoveB, exNearC] 0 1000) [occA, occB, occC])
     = [occB \<lparr> o_Title := ''moved'', o_StartTime := 350 \<rparr>, occC]
   \<and> intersectsWindow 350 400 0 1000
   \<and> distinct (map (\<lambda>e. UnixNano (e_OccurrenceStart e)) [exSkipA, exMoveB, exNearC])
   \<and> matchingException [exSkipA, exMoveB, exNearC] occB = Some exMoveB
   \<and> matchingException [exSkipA, exMoveB, exNearC] occC \<noteq> Some exNearC"
proof -
  have m: "matchingException [exSkipA, exMoveB, exNearC] occA = Some exSkipA"
    "matchingException [exSkipA, exMoveB, exNearC] occB = Some exMoveB"
    "matchingException [exSkipA, exMoveB, exNearC] occC = None"
    by (simp_all add: matchingException_def example_keys
        occA_def occB_def occC_def exSkipA_def exMoveB_def exNearC_def)
  have proper: "\<forall>oc \<in> set [occA, occB, occC]. \<forall>ex.
      matchingException [exSkipA, exMoveB, exNearC] oc = Some ex \<and> e_Kind ex \<noteq> ''skip'' \<longrightarrow>
        o_StartTime (overridden oc ex) < o_EndTime (overridden oc ex)"
    using m by (simp add: overridden_def occB_def exMoveB_def exSkipA_def)
  have w: "(0::int) < 1000" by simp
  from applyRecurringExceptions_merges
          [of "[occA, occB, occC]" "[exSkipA, exMoveB, exNearC]" 0 1000] proper w
  have e: "applyRecurringExceptions [occA, occB, occC] [exSkipA, exMoveB, exNearC] 0 1000
     = concat (map (mergedOutcome [exSkipA, exMoveB, exNearC] 0 1000) [occA, occB, occC])"
    by blast
  have c: "concat (map (mergedOutcome [exSkipA, exMoveB, exNearC] 0 1000) [occA, occB, occC])
     = [occB \<lparr> o_Title := ''moved'', o_StartTime := 350 \<rparr>, occC]"
    using m by (simp add: mergedOutcome_def intersectsWindow_def overridden_def
        occB_def exMoveB_def exSkipA_def)
  have i: "intersectsWindow 350 400 0 1000" by (simp add: intersectsWindow_def)
  have d: "distinct (map (\<lambda>e. UnixNano (e_OccurrenceStart e)) [exSkipA, exMoveB, exNearC])"
    by (simp add: example_keys exSkipA_def exMoveB_def exNearC_def)
  have n: "matchingException [exSkipA, exMoveB, exNearC] occC \<noteq> Some exNearC"
    using m by simp
  from e c i d m(2) n show ?thesis by simp
qed

text \<open>
  The third occurrence, from 500 to 600, with an override that moves only its start to
  700, in the window from 0 to 1000: the merger keeps the rewritten occurrence, from 700
  to 600, although no instant lies in that interval, so that it does not intersect the
  window and the outcome in the words of the specification is to drop it.
\<close>

theorem applyRecurringExceptions_empty_interval_counterexample:
  "applyRecurringExceptions [occC] [exLateC] 0 1000 = [occC \<lparr> o_StartTime := 700 \<rparr>]
   \<and> o_EndTime (occC \<lparr> o_StartTime := 700 \<rparr>) = 600
   \<and> \<not> intersectsWindow 700 600 0 1000
   \<and> concat (map (mergedOutcome [exLateC] 0 1000) [occC]) = []"
proof -
  have m: "matchingException [exLateC] occC = Some exLateC"
    by (simp add: matchingException_def example_keys occC_def exLateC_def)
  have "applyRecurringExceptions [occC] [exLateC] 0 1000 = [occC \<lparr> o_StartTime := 700 \<rparr>]"
    unfolding applyRecurringExceptions_concat using m
    by (simp add: loopOutcome_def overridden_def occC_def exLateC_def)
  moreover have "concat (map (mergedOutcome [exLateC] 0 1000) [occC]) = []"
    using m by (simp add: mergedOutcome_def intersectsWindow_def overridden_def occC_def exLateC_def)
  ultimately show ?thesis by (simp add: intersectsWindow_def occC_def)
qed

section \<open>Properties of calendarTx.CreateAppointment\<close>

lemma BeforeAppendModel_Inr:
  assumes "BeforeAppendModel now newV7 m = Inr m'"
  shows "m' = m \<lparr> a_ID := a_ID m',
                   a_CreatedAt := (if IsZero (a_CreatedAt m) then now else a_CreatedAt m),
                   a_UpdatedAt := (if IsZero (a_UpdatedAt m) then now else a_UpdatedAt m) \<rparr>"
    and "a_ID m \<noteq> uuid_Nil \<Longrightarrow> a_ID m' = a_ID m"
    and "a_ID m = uuid_Nil \<Longrightarrow> newV7 = Inr (a_ID m')"
  using assms
  by (auto simp: BeforeAppendModel_def Let_def split: if_splits sum.splits)

lemma appt_copy: 
  "\<lparr> a_ID = a_ID appt, a_UserID = a_UserID appt, a_Title = a_Title appt,
     a_Notes = a_Notes appt, a_StartTime = a_StartTime appt,
     a_EndTime = a_EndTime appt, a_CreatedAt = a_CreatedAt appt,
     a_UpdatedAt = a_UpdatedAt appt \<rparr> = (appt :: Appointment)"
  by simp

lemma insertAppointment_Inr:
  "insertAppointment m rows = Inr rows' \<Longrightarrow>
     rows' = rows @ [storedRow m] \<and> (\<forall>r \<in> set rows. a_ID r \<noteq> a_ID m)"
  by (auto simp: insertAppointment_def Let_def storedRow_def split: if_splits)

lemma insertAppointment_Inl:
  "insertAppointment m rows = Inl err \<Longrightarrow>
     err = PgError ''23514'' ''appointments_valid_time_range'' \<or>
     (err = PgError ''23505'' ''appointments_pkey'' \<and> (\<exists>r \<in> set rows. a_ID r = a_ID m)) \<or>
     err = PgError ''23P01'' ''appointments_no_overlap''"
  by (auto simp: insertAppointment_def Let_def storedRow_def split: if_splits)

lemma timestamptz_zeroTime:
  "(timestamptz now = zeroTime) = (zeroTime \<le> now \<and> now < zeroTime + 1000)"
proof -
  have z: "zeroTime mod 1000 = 0" by (simp add: zeroTime_def)
  show ?thesis
  proof
    assume "timestamptz now = zeroTime"
    then have "now = zeroTime + now mod 1000" by (simp add: timestamptz_def)
    moreover have "0 \<le> now mod 1000" "now mod 1000 < 1000" by simp_all
    ultimately show "zeroTime \<le> now \<and> now < zeroTime + 1000" by linarith
  next
    assume a: "zeroTime \<le> now \<and> now < zeroTime + 1000"
    define r where "r = now - zeroTime"
    have r: "0 \<le> r" "r < 1000" using a by (simp_all add: r_def)
    have "now mod 1000 = (zeroTime + r) mod 1000" by (simp add: r_def)
    also have "\<dots> = r mod 1000" using z by (simp add: mod_add_left_eq [symmetric])
    also have "\<dots> = r" using r by simp
    finally show "timestamptz now = zeroTime" by (simp add: timestamptz_def r_def)
  qed
qed

lemma selectAppointment_Inr:
  "selectAppointment u rows = Inr r \<Longrightarrow> r \<in> set rows \<and> a_ID r = u"
  using find_Some_in [of "\<lambda>r. a_ID r = u" rows r]
  by (auto simp: selectAppointment_def split: option.splits)

lemma CreateAppointment_hook_error:
  "BeforeAppendModel now newV7 appt = Inl err \<Longrightarrow>
     CreateAppointment now newV7 appt d = (Inl err, d)"
  by (simp add: CreateAppointment_def Let_def appt_copy)

lemma CreateAppointment_inserted:
  "BeforeAppendModel now newV7 appt = Inr m \<Longrightarrow>
   insertAppointment m (db_appointments d) = Inr rows \<Longrightarrow>
     CreateAppointment now newV7 appt d =
       (Inr (appt \<lparr> a_ID := a_ID m \<rparr>), d \<lparr> db_appointments := rows \<rparr>)"
  by (simp add: CreateAppointment_def Let_def appt_copy)

lemma CreateAppointment_unique_violation:
  "BeforeAppendModel now newV7 appt = Inr m \<Longrightarrow>
   insertAppointment m (db_appointments d) = Inl (PgError ''23505'' c) \<Longrightarrow>
     CreateAppointment now newV7 appt d =
       (case selectAppointment (a_ID m) (db_appointments d) of
          Inl selectErr \<Rightarrow> (Inl (PgError ''23505'' c), d)
        | Inr existing \<Rightarrow>
            if samePayload existing appt then (Inr existing, d)
            else (Inl ErrIdempotencyConflict, d))"
  by (auto simp: CreateAppointment_def Let_def appt_copy samePayload_def Equal_def split: sum.splits)

lemma CreateAppointment_other_violation:
  "BeforeAppendModel now newV7 appt = Inr m \<Longrightarrow>
   insertAppointment m (db_appointments d) = Inl (PgError code c) \<Longrightarrow>
   code \<noteq> ''23505'' \<Longrightarrow>
     \<exists>err. CreateAppointment now newV7 appt d = (Inl err, d)"
  by (simp add: CreateAppointment_def Let_def appt_copy)

text \<open>
  C8. When CreateAppointment succeeds and no row was stored under the returned id before
  (a fresh insert), the value returned is the caller's appointment with only the id
  replaced, and the row stored is the appointment after the insert hook, at the
  precision of the table. So an input with zero CreatedAt and UpdatedAt comes back with
  zero CreatedAt and UpdatedAt, while the stored row holds the clock reading (in
  microseconds), which is the zero time only for a clock within a microsecond of it.
  When a row was stored under the returned id before (a replay), the value returned is
  that stored row, timestamps included, and the database is left as it was.
\<close>

theorem CreateAppointment_fresh_insert:
  assumes ok: "CreateAppointment now newV7 appt d = (Inr a, d')"
  shows "((\<forall>r \<in> set (db_appointments d). a_ID r \<noteq> a_ID a) \<longrightarrow>
            a = appt \<lparr> a_ID := a_ID a \<rparr> \<and>
            db_appointments d' = db_appointments d @
              [storedRow (appt \<lparr> a_ID := a_ID a,
                 a_CreatedAt := (if IsZero (a_CreatedAt appt) then now else a_CreatedAt appt),
                 a_UpdatedAt := (if IsZero (a_UpdatedAt appt) then now else a_UpdatedAt appt) \<rparr>)] \<and>
            (IsZero (a_CreatedAt appt) \<longrightarrow>
               a_CreatedAt a = zeroTime \<and>
               a_CreatedAt (last (db_appointments d')) = timestamptz now) \<and>
            (IsZero (a_UpdatedAt appt) \<longrightarrow>
               a_UpdatedAt a = zeroTime \<and>
               a_UpdatedAt (last (db_appointments d')) = timestamptz now) \<and>
            (timestamptz now = zeroTime) = (zeroTime \<le> now \<and> now < zeroTime + 1000))
       \<and> ((\<exists>r \<in> set (db_appointments d). a_ID r = a_ID a) \<longrightarrow>
            a \<in> set (db_appointments d) \<and> d' = d)"
proof (cases "BeforeAppendModel now newV7 appt")
  case (Inl err)
  with ok show ?thesis by (simp add: CreateAppointment_hook_error)
next
  case (Inr m)
  note hook = BeforeAppendModel_Inr(1) [OF Inr]
  show ?thesis
  proof (cases "insertAppointment m (db_appointments d)")
    case (Inl err)
    from insertAppointment_Inl [OF Inl]
    consider (uniq) "err = PgError ''23505'' ''appointments_pkey''"
      | (other) code c where "err = PgError code c" "code \<noteq> ''23505''"
      by auto
    then show ?thesis
    proof cases
      case uniq
      from CreateAppointment_unique_violation [OF Inr Inl [unfolded uniq]] ok
      have sel: "selectAppointment (a_ID m) (db_appointments d) = Inr a" and d': "d' = d"
        by (auto split: sum.splits if_splits)
      from selectAppointment_Inr [OF sel] have "a \<in> set (db_appointments d)" by simp
      with d' show ?thesis by auto
    next
      case other
      from CreateAppointment_other_violation [OF Inr Inl [unfolded other(1)] other(2)] ok
      show ?thesis by auto
    qed
  next
    case (Inr rows)
    from CreateAppointment_inserted [OF \<open>BeforeAppendModel now newV7 appt = Inr m\<close> Inr] ok
    have a: "a = appt \<lparr> a_ID := a_ID m \<rparr>"
      and d': "d' = d \<lparr> db_appointments := rows \<rparr>"
      by simp_all
    from a have ida: "a_ID a = a_ID m" by simp
    from insertAppointment_Inr [OF Inr]
    have rows: "rows = db_appointments d @ [storedRow m]"
      and fresh: "\<forall>r \<in> set (db_appointments d). a_ID r \<noteq> a_ID a"
      using ida by simp_all
    have m: "m = appt \<lparr> a_ID := a_ID a,
                    a_CreatedAt := (if IsZero (a_CreatedAt appt) then now else a_CreatedAt appt),
                    a_UpdatedAt := (if IsZero (a_UpdatedAt appt) then now else a_UpdatedAt appt) \<rparr>"
      using hook ida by simp
    have a': "a = appt \<lparr> a_ID := a_ID a \<rparr>" using a by simp
    have rows': "db_appointments d' = db_appointments d @ [storedRow m]" using d' rows by simp
    have zc: "IsZero (a_CreatedAt appt) \<longrightarrow>
               a_CreatedAt a = zeroTime \<and> a_CreatedAt (last (db_appointments d')) = timestamptz now"
      unfolding rows' using a by (subst m) (simp add: IsZero_def storedRow_def)
    have zu: "IsZero (a_UpdatedAt appt) \<longrightarrow>
               a_UpdatedAt a = zeroTime \<and> a_UpdatedAt (last (db_appointments d')) = timestamptz now"
      unfolding rows' using a by (subst m) (simp add: IsZero_def storedRow_def)
    have no: "\<not> (\<exists>r \<in> set (db_appointments d). a_ID r = a_ID a)" using fresh by blast
    have rows'': "db_appointments d' = db_appointments d @
              [storedRow (appt \<lparr> a_ID := a_ID a,
                 a_CreatedAt := (if IsZero (a_CreatedAt appt) then now else a_CreatedAt appt),
                 a_UpdatedAt := (if IsZero (a_UpdatedAt appt) then now else a_UpdatedAt appt) \<rparr>)]"
      using rows' m by simp
    from a' rows'' zc zu no timestamptz_zeroTime [of now] show ?thesis by blast
  qed
qed

theorem CreateAppointment_fresh_insert_witness:
  "CreateAppointment 5001 (Inr 7) apptNew dbEmpty =
     (Inr (apptNew \<lparr> a_ID := 7 \<rparr>),
      dbEmpty \<lparr> db_appointments :=
                 [apptNew \<lparr> a_ID := 7, a_CreatedAt := 5000, a_UpdatedAt := 5000 \<rparr>] \<rparr>)
   \<and> db_appointments dbEmpty = []
   \<and> IsZero (a_CreatedAt apptNew) \<and> a_CreatedAt (apptNew \<lparr> a_ID := 7 \<rparr>) = zeroTime
   \<and> timestamptz 5001 = 5000 \<and> zeroTime \<noteq> 5000"
proof -
  have run: "CreateAppointment 5001 (Inr 7) apptNew dbEmpty =
     (Inr (apptNew \<lparr> a_ID := 7 \<rparr>),
      dbEmpty \<lparr> db_appointments :=
                 [apptNew \<lparr> a_ID := 7, a_CreatedAt := 5000, a_UpdatedAt := 5000 \<rparr>] \<rparr>)"
    by (simp add: CreateAppointment_def BeforeAppendModel_def insertAppointment_def
        storedRow_def timestamptz_def apptNew_def dbEmpty_def IsZero_def uuid_Nil_def Let_def)
  from CreateAppointment_fresh_insert [OF run] run show ?thesis
    by (simp add: apptNew_def dbEmpty_def IsZero_def zeroTime_def timestamptz_def)
qed

section \<open>Properties of the idempotent create\<close>












section \<open>Properties of the idempotency key\<close>

lemma trimLeading_Nil: "trimLeading runes [] = []"
proof -
  have "find (\<lambda>r. r \<noteq> [] \<and> take (length r) [] = r) runes = None"
    by (auto simp: find_None_iff)
  then show ?thesis by (simp add: trimLeading.simps)
qed

lemma spaceRunes_all:
  "list_all (\<lambda>r. r \<noteq> [] \<and> length r = runeLength (hd r)) spaceRunes"
  unfolding spaceRunes_def runeLength_def by simp

lemma spaceRunes_length:
  "r \<in> set spaceRunes \<Longrightarrow> r \<noteq> [] \<and> length r = runeLength (hd r)"
  using spaceRunes_all by (simp add: list_all_iff)

lemma find_unique:
  "r \<in> set xs \<Longrightarrow> P r \<Longrightarrow> (\<And>q. q \<in> set xs \<Longrightarrow> P q \<Longrightarrow> q = r) \<Longrightarrow> find P xs = Some r"
proof (induction xs)
  case Nil
  then show ?case by simp
next
  case (Cons a xs)
  show ?case
  proof (cases "P a")
    case True
    with Cons.prems(3) [of a] show ?thesis by simp
  next
    case False
    with Cons.prems(1,2) have "r \<in> set xs" by auto
    from Cons.IH [OF this Cons.prems(2)] Cons.prems(3) False show ?thesis by simp
  qed
qed

lemma trimLeading_spaceRune:
  assumes "r \<in> set spaceRunes"
  shows "trimLeading spaceRunes (r @ s) = trimLeading spaceRunes s"
proof -
  from spaceRunes_length [OF assms] have r: "r \<noteq> []" "length r = runeLength (hd r)" by simp_all
  have "find (\<lambda>q. q \<noteq> [] \<and> take (length q) (r @ s) = q) spaceRunes = Some r"
  proof (rule find_unique [OF assms])
    show "r \<noteq> [] \<and> take (length r) (r @ s) = r" using r by simp
  next
    fix q assume q: "q \<in> set spaceRunes" and p: "q \<noteq> [] \<and> take (length q) (r @ s) = q"
    from spaceRunes_length [OF q] have ql: "length q = runeLength (hd q)" by simp
    from p obtain c q' where qc: "q = c # q'" by (cases q) auto
    from r obtain c' r' where rc: "r = c' # r'" by (cases r) auto
    from p have "c = c'" unfolding qc rc by simp
    then have "length q = length r" using ql r qc rc by simp
    with p show "q = r" by simp
  qed
  then show ?thesis
    by (subst trimLeading.simps) simp
qed

lemma trimLeading_whiteSpaceOnly:
  "whiteSpaceOnly s \<Longrightarrow> trimLeading spaceRunes s = []"
  by (induction rule: whiteSpaceOnly.induct) (simp_all add: trimLeading_Nil trimLeading_spaceRune)

lemma TrimSpace_whiteSpaceOnly:
  "whiteSpaceOnly s \<Longrightarrow> TrimSpace s = []"
  by (simp add: TrimSpace_def trimLeading_whiteSpaceOnly trimLeading_Nil)

lemma trimLeading_spaces:
  "trimLeading spaceRunes (replicate n (CHR 0x20) @ s) = trimLeading spaceRunes s"
proof (induction n)
  case 0
  then show ?case by simp
next
  case (Suc n)
  have m: "[CHR 0x20] \<in> set spaceRunes" by (simp add: spaceRunes_def)
  have "replicate (Suc n) (CHR 0x20) @ s = [CHR 0x20] @ (replicate n (CHR 0x20) @ s)"
    by simp
  then have "trimLeading spaceRunes (replicate (Suc n) (CHR 0x20) @ s)
               = trimLeading spaceRunes ([CHR 0x20] @ (replicate n (CHR 0x20) @ s))"
    by (rule arg_cong)
  also have "\<dots> = trimLeading spaceRunes (replicate n (CHR 0x20) @ s)"
    by (rule trimLeading_spaceRune [OF m])
  also have "\<dots> = trimLeading spaceRunes s" by (rule Suc)
  finally show ?case .
qed

lemma Service_Create_valid:
  assumes "validFields inp"
  shows "Service_Create NewSHA1 repo_Create inp st =
           (let key = TrimSpace (i_IdempotencyKey inp)
            in if key \<noteq> []
               then if length key > 256
                    then (Inl (ValidationError ''idempotency_key too long''), st)
                    else repo_Create
                           (apptOf inp \<lparr> a_ID := NewSHA1 uuid_NameSpaceOID
                               (''schedula:create_appointment:'' @ i_UserID inp @ '':'' @ key) \<rparr>) st
               else repo_Create (apptOf inp) st)"
proof -
  have "\<not> Sub (i_EndTime inp) (i_StartTime inp) > 24 * time_Hour"
    using assms
    by (simp add: validFields_def Sub_def maxDuration_def minDuration_def time_Hour_def time_Second_def)
  then show ?thesis
    using assms
    by (simp add: validFields_def Service_Create_def Let_def Equal_def Before_def apptOf_def)
qed

text \<open>
  C10. Service.Create trims the idempotency key first. For an input with valid fields
  whose key consists only of white space the trimmed key is empty: the appointment
  reaches the repository with the zero id, and the insert hook then gives such an
  appointment the id uuid.NewV7 returns. The 256-byte limit is tested on the trimmed key:
  a key whose trimmed form is non-empty and at most 256 bytes long is accepted whatever
  the length of the raw key, and one whose trimmed form is longer is rejected.
\<close>

theorem idempotency_key_trimmed:
  "(validFields inp \<and> whiteSpaceOnly (i_IdempotencyKey inp) \<longrightarrow>
      TrimSpace (i_IdempotencyKey inp) = [] \<and>
      Service_Create NewSHA1 repo_Create inp st = repo_Create (apptOf inp) st \<and>
      a_ID (apptOf inp) = uuid_Nil)
   \<and> (a_ID m = uuid_Nil \<longrightarrow>
        (\<exists>m'. BeforeAppendModel now (Inr v7) m = Inr m' \<and> a_ID m' = v7))
   \<and> (validFields inp \<and> TrimSpace (i_IdempotencyKey inp) \<noteq> [] \<and>
       length (TrimSpace (i_IdempotencyKey inp)) \<le> 256 \<longrightarrow>
        Service_Create NewSHA1 repo_Create inp st =
          repo_Create (apptOf inp \<lparr> a_ID := NewSHA1 uuid_NameSpaceOID
             (''schedula:create_appointment:'' @ i_UserID inp @ '':'' @
              TrimSpace (i_IdempotencyKey inp)) \<rparr>) st)
   \<and> (validFields inp \<and> length (TrimSpace (i_IdempotencyKey inp)) > 256 \<longrightarrow>
        Service_Create NewSHA1 repo_Create inp st =
          (Inl (ValidationError ''idempotency_key too long''), st))"
proof -
  have p1: "validFields inp \<and> whiteSpaceOnly (i_IdempotencyKey inp) \<longrightarrow>
      TrimSpace (i_IdempotencyKey inp) = [] \<and>
      Service_Create NewSHA1 repo_Create inp st = repo_Create (apptOf inp) st \<and>
      a_ID (apptOf inp) = uuid_Nil"
  proof
    assume a: "validFields inp \<and> whiteSpaceOnly (i_IdempotencyKey inp)"
    then have t: "TrimSpace (i_IdempotencyKey inp) = []"
      by (simp add: TrimSpace_whiteSpaceOnly)
    from a t show "TrimSpace (i_IdempotencyKey inp) = [] \<and>
        Service_Create NewSHA1 repo_Create inp st = repo_Create (apptOf inp) st \<and>
        a_ID (apptOf inp) = uuid_Nil"
      by (simp add: Service_Create_valid apptOf_def)
  qed
  have p2: "a_ID m = uuid_Nil \<longrightarrow>
        (\<exists>m'. BeforeAppendModel now (Inr v7) m = Inr m' \<and> a_ID m' = v7)"
    by (simp add: BeforeAppendModel_def Let_def)
  have p3: "validFields inp \<and> TrimSpace (i_IdempotencyKey inp) \<noteq> [] \<and>
       length (TrimSpace (i_IdempotencyKey inp)) \<le> 256 \<longrightarrow>
        Service_Create NewSHA1 repo_Create inp st =
          repo_Create (apptOf inp \<lparr> a_ID := NewSHA1 uuid_NameSpaceOID
             (''schedula:create_appointment:'' @ i_UserID inp @ '':'' @
              TrimSpace (i_IdempotencyKey inp)) \<rparr>) st"
    by (simp add: Service_Create_valid Let_def)
  have p4: "validFields inp \<and> length (TrimSpace (i_IdempotencyKey inp)) > 256 \<longrightarrow>
        Service_Create NewSHA1 repo_Create inp st =
          (Inl (ValidationError ''idempotency_key too long''), st)"
    by (auto simp: Service_Create_valid Let_def)
  from p1 p2 p3 p4 show ?thesis by blast
qed

theorem idempotency_key_trimmed_witness:
  "validFields inputBlankKey \<and> whiteSpaceOnly (i_IdempotencyKey inputBlankKey)
   \<and> Service_Create (\<lambda>ns name. 42) (AppointmentRepo_Create 9000 (Inr 7)) inputBlankKey dbEmpty
       = (Inr (apptNew \<lparr> a_ID := 7 \<rparr>),
          dbEmpty \<lparr> db_appointments := [apptNew \<lparr> a_ID := 7, a_CreatedAt := 9000, a_UpdatedAt := 9000 \<rparr>] \<rparr>)
   \<and> length (i_IdempotencyKey inputPaddedKey) = 302
   \<and> TrimSpace (i_IdempotencyKey inputPaddedKey) = ''k1''
   \<and> Service_Create (\<lambda>ns name. 42) (AppointmentRepo_Create 9000 (Inr 7)) inputPaddedKey dbOne
       = (Inr apptStored, dbOne)"
proof -
  have trim: "TrimSpace ''t'' = ''t''" "TrimSpace ''k1'' = ''k1''"
    by (simp_all add: TrimSpace_def trimLeading.simps spaceRunes_def)
  have v1: "validFields inputBlankKey" and v2: "validFields inputPaddedKey"
    by (simp_all add: validFields_def inputBlankKey_def inputPaddedKey_def inputK1_def trim
        time_Hour_def time_Second_def)
  have "whiteSpaceOnly ([CHR 0x20] @ [CHR 0x09] @ [CHR 0xC2, CHR 0xA0] @ [])"
    by (intro whiteSpaceOnly.intros) (simp_all add: spaceRunes_def)
  then have w: "whiteSpaceOnly (i_IdempotencyKey inputBlankKey)"
    by (simp add: inputBlankKey_def)
  have a1: "apptOf inputBlankKey = apptNew"
    by (simp add: apptOf_def inputBlankKey_def inputK1_def apptNew_def trim)
  have run1: "AppointmentRepo_Create 9000 (Inr 7) apptNew dbEmpty
       = (Inr (apptNew \<lparr> a_ID := 7 \<rparr>),
          dbEmpty \<lparr> db_appointments := [apptNew \<lparr> a_ID := 7, a_CreatedAt := 9000, a_UpdatedAt := 9000 \<rparr>] \<rparr>)"
    by (simp add: AppointmentRepo_Create_def CreateAppointment_def BeforeAppendModel_def
        insertAppointment_def storedRow_def timestamptz_def apptNew_def dbEmpty_def IsZero_def
        uuid_Nil_def Let_def)
  have t2: "TrimSpace (i_IdempotencyKey inputPaddedKey) = ''k1''"
  proof -
    have "trimLeading spaceRunes (replicate 300 (CHR 0x20) @ ''k1'') = trimLeading spaceRunes ''k1''"
      by (rule trimLeading_spaces)
    also have "\<dots> = ''k1''" by (simp add: trimLeading.simps spaceRunes_def)
    finally show ?thesis
      by (simp add: TrimSpace_def inputPaddedKey_def trimLeading.simps [of _ "''1k''"] spaceRunes_def)
  qed
  have a2: "apptOf inputPaddedKey \<lparr> a_ID := 42 \<rparr>
              = apptStored \<lparr> a_CreatedAt := zeroTime, a_UpdatedAt := zeroTime \<rparr>"
    by (simp add: apptOf_def inputPaddedKey_def inputK1_def apptStored_def trim)
  have run2: "AppointmentRepo_Create 9000 (Inr 7)
                (apptStored \<lparr> a_CreatedAt := zeroTime, a_UpdatedAt := zeroTime \<rparr>) dbOne
              = (Inr apptStored, dbOne)"
    by (simp add: AppointmentRepo_Create_def CreateAppointment_def BeforeAppendModel_def
        insertAppointment_def selectAppointment_def storedRow_def timestamptz_def
        apptStored_def dbOne_def IsZero_def uuid_Nil_def Let_def Equal_def zeroTime_def)
  have len: "length (i_IdempotencyKey inputPaddedKey) = 302"
    by (simp add: inputPaddedKey_def)
  from idempotency_key_trimmed [of inputBlankKey "\<lambda>ns name. 42" "AppointmentRepo_Create 9000 (Inr 7)" dbEmpty]
    v1 w a1 run1
  have r1: "Service_Create (\<lambda>ns name. 42) (AppointmentRepo_Create 9000 (Inr 7)) inputBlankKey dbEmpty
       = (Inr (apptNew \<lparr> a_ID := 7 \<rparr>),
          dbEmpty \<lparr> db_appointments := [apptNew \<lparr> a_ID := 7, a_CreatedAt := 9000, a_UpdatedAt := 9000 \<rparr>] \<rparr>)"
    by simp
  from idempotency_key_trimmed [of inputPaddedKey "\<lambda>ns name. 42" "AppointmentRepo_Create 9000 (Inr 7)" dbOne]
    v2 t2 a2 run2
  have r2: "Service_Create (\<lambda>ns name. 42) (AppointmentRepo_Create 9000 (Inr 7)) inputPaddedKey dbOne
       = (Inr apptStored, dbOne)"
    by simp
  from v1 w r1 len t2 r2 show ?thesis by blast
qed

section \<open>Scenario S5\<close>

text \<open>
  C6. The series of scenario S5 (America/New_York, first occurrence 2026-03-01 09:00
  local, one hour, every week on Sunday, count 4), stored without exceptions and listed
  over the window from 2026-03-01 00:00 UTC to 2026-03-22 00:00 UTC, gives exactly three
  occurrences, on 2026-03-01, 2026-03-08 and 2026-03-15. The first starts at 14:00 UTC
  and the other two, after the change to daylight saving time, at 13:00 UTC; each starts
  at 09:00 on its local date in America/New_York.
\<close>

theorem scenario_S5_occurrences:
  "ListOccurrences tzdata dbS5 ''u1'' (utcDate 2026 3 1 0 0 0) (utcDate 2026 3 22 0 0 0)
     = Inr [occurrenceS5 (utcDate 2026 3 1 14 0 0), occurrenceS5 (utcDate 2026 3 8 13 0 0),
            occurrenceS5 (utcDate 2026 3 15 13 0 0)]
   \<and> GenerateWeeklyOccurrences tzdata seriesS5 (utcDate 2026 3 1 0 0 0) (utcDate 2026 3 22 0 0 0)
     = Inr [occurrenceS5 (utcDate 2026 3 1 14 0 0), occurrenceS5 (utcDate 2026 3 8 13 0 0),
            occurrenceS5 (utcDate 2026 3 15 13 0 0)]
   \<and> map (\<lambda>t. (civilDay (In t America_New_York), Hour (In t America_New_York),
                 Minute (In t America_New_York), Second (In t America_New_York)))
         [utcDate 2026 3 1 14 0 0, utcDate 2026 3 8 13 0 0, utcDate 2026 3 15 13 0 0]
     = [(daysFromCivil 2026 3 1, 9, 0, 0), (daysFromCivil 2026 3 8, 9, 0, 0),
        (daysFromCivil 2026 3 15, 9, 0, 0)]"
  by code_simp

section \<open>Properties of Service.CreateRecurringSeries\<close>











section \<open>Properties of the conflict checker\<close>












section \<open>Properties of the recurrence engine\<close>

lemma weekdayLoop_step:
  "weekdayLoop l k wk j (wd # rest) out =
     (if cand l wk wd < s_DTStart (l_series l) then weekdayLoop l k wk (j + 1) rest out
      else if untilCut l (cand l wk wd) then (out, True)
      else if countCut l k j then (out, True)
      else if meetsWindow l (cand l wk wd)
      then weekdayLoop l k wk (j + 1) rest (out @ [occurrenceAt (l_series l) (cand l wk wd)])
      else weekdayLoop l k wk (j + 1) rest out)"
  by (auto simp: Let_def cand_def untilCut_def countCut_def meetsWindow_def occurrenceAt_def
      Before_def After_def Add_def split: option.splits)

lemma weekLoop_step:
  "weekLoop l k out =
     (if \<not> weekStart l k < l_windowEndWeekBoundaryUTC l then out
      else if snd (weekdayLoop l k (weekStart l k) 0 (l_weekdays l) out)
      then fst (weekdayLoop l k (weekStart l k) 0 (l_weekdays l) out)
      else weekLoop l (k + 1) (fst (weekdayLoop l k (weekStart l k) 0 (l_weekdays l) out)))"
  by (subst weekLoop.simps)
     (auto simp: Let_def weekStart_def Before_def split: prod.splits bool.splits)

lemma weekdayLoop_elems:
  "oc \<in> set (fst (weekdayLoop l k wk j rest out)) \<Longrightarrow>
     oc \<in> set out \<or>
     (\<exists>wd \<in> set rest. oc = occurrenceAt (l_series l) (cand l wk wd) \<and>
        s_DTStart (l_series l) \<le> cand l wk wd \<and> meetsWindow l (cand l wk wd))"
proof (induction rest arbitrary: j out)
  case Nil
  then show ?case by simp
next
  case (Cons wd rest)
  from Cons.prems show ?case
    unfolding weekdayLoop_step
    by (auto split: if_splits dest!: Cons.IH)
qed

lemma weekLoop_induct [consumes 0, case_names step]:
  assumes step: "\<And>k out.
      (weekStart l k < l_windowEndWeekBoundaryUTC l \<Longrightarrow>
       \<not> snd (weekdayLoop l k (weekStart l k) 0 (l_weekdays l) out) \<Longrightarrow>
       P (k + 1) (fst (weekdayLoop l k (weekStart l k) 0 (l_weekdays l) out)))
      \<Longrightarrow> P k out"
  shows "P k out"
proof -
  have "l' = l \<longrightarrow> P k out" for l'
  proof (induction l' k out rule: weekLoop.induct)
    case (1 l' weekIndex out)
    show ?case
    proof
      assume l': "l' = l"
      show "P weekIndex out"
      proof (rule step)
        assume b: "weekStart l weekIndex < l_windowEndWeekBoundaryUTC l"
          and f: "\<not> snd (weekdayLoop l weekIndex (weekStart l weekIndex) 0 (l_weekdays l) out)"
        have e1: "weekStart l' weekIndex =
            AddDate_days (l_startWeekMondayUTC l') (weekIndex * interval (l_series l') * 7)"
          by (simp add: weekStart_def)
        have e2: "\<not> \<not> Before (weekStart l' weekIndex) (l_windowEndWeekBoundaryUTC l')"
          using b l' by (simp add: Before_def)
        have e3: "(fst (weekdayLoop l' weekIndex (weekStart l' weekIndex) 0 (l_weekdays l') out),
                 snd (weekdayLoop l' weekIndex (weekStart l' weekIndex) 0 (l_weekdays l') out))
                = weekdayLoop l' weekIndex (weekStart l' weekIndex) 0 (l_weekdays l') out"
          by simp
        have e4: "snd (weekdayLoop l' weekIndex (weekStart l' weekIndex) 0 (l_weekdays l') out) = False"
          using f l' by simp
        have "l' = l \<longrightarrow> P (weekIndex + 1)
                (fst (weekdayLoop l' weekIndex (weekStart l' weekIndex) 0 (l_weekdays l') out))"
          by (rule "1.IH" [OF e1 e2 e3 e4])
        with l' show "P (weekIndex + 1)
                (fst (weekdayLoop l weekIndex (weekStart l weekIndex) 0 (l_weekdays l) out))"
          by simp
      qed
    qed
  qed
  then show ?thesis by simp
qed

lemma weekLoop_elems:
  "oc \<in> set (weekLoop l k out) \<Longrightarrow>
     oc \<in> set out \<or>
     (\<exists>k' \<ge> k. \<exists>wd \<in> set (l_weekdays l).
        oc = occurrenceAt (l_series l) (cand l (weekStart l k') wd) \<and>
        s_DTStart (l_series l) \<le> cand l (weekStart l k') wd \<and>
        meetsWindow l (cand l (weekStart l k') wd))"
proof (induction k out rule: weekLoop_induct [of l])
  case (step k out)
  let ?r = "weekdayLoop l k (weekStart l k) 0 (l_weekdays l) out"
  show ?case
  proof (cases "weekStart l k < l_windowEndWeekBoundaryUTC l")
    case False
    with step.prems show ?thesis by (subst (asm) weekLoop_step) simp
  next
    case b: True
    show ?thesis
    proof (cases "snd ?r")
      case True
      with b step.prems have "oc \<in> set (fst ?r)" by (subst (asm) weekLoop_step) simp
      from weekdayLoop_elems [OF this] show ?thesis by auto
    next
      case False
      with b step.prems have m: "oc \<in> set (weekLoop l (k + 1) (fst ?r))"
        by (subst (asm) weekLoop_step) simp
      from step.IH [OF b False m] show ?thesis
      proof
        assume "oc \<in> set (fst ?r)"
        from weekdayLoop_elems [OF this] show ?thesis by auto
      next
        assume "\<exists>k' \<ge> k + 1. \<exists>wd \<in> set (l_weekdays l).
          oc = occurrenceAt (l_series l) (cand l (weekStart l k') wd) \<and>
          s_DTStart (l_series l) \<le> cand l (weekStart l k') wd \<and>
          meetsWindow l (cand l (weekStart l k') wd)"
        then obtain k' wd where "k' \<ge> k + 1" "wd \<in> set (l_weekdays l)"
          "oc = occurrenceAt (l_series l) (cand l (weekStart l k') wd)"
          "s_DTStart (l_series l) \<le> cand l (weekStart l k') wd"
          "meetsWindow l (cand l (weekStart l k') wd)" by blast
        moreover then have "k' \<ge> k" by simp
        ultimately show ?thesis by blast
      qed
    qed
  qed
qed

lemma weekdaysLoop_Inr:
  "weekdaysLoop xs acc = Inr ws \<Longrightarrow> distinct acc \<Longrightarrow> set acc \<subseteq> {1..7} \<Longrightarrow>
     distinct ws \<and> set ws \<subseteq> {1..7}"
  by (induction xs acc rule: weekdaysLoop.induct) (auto split: if_splits)

lemma GenerateWeeklyOccurrences_Inr:
  assumes "GenerateWeeklyOccurrences tzdb series ws we = Inr occs"
  shows "\<exists>loc. tzdb (s_Timezone series) = Some loc \<and>
           occs = weekLoop (localsOf series loc ws we) (startWeekIndexOf series loc ws) [] \<and>
           0 < s_DurationSeconds series \<and>
           weekdaysOf series \<noteq> [] \<and> sorted (weekdaysOf series) \<and>
           distinct (weekdaysOf series) \<and> set (weekdaysOf series) \<subseteq> {1..7}"
proof -
  from assms obtain loc where loc: "tzdb (s_Timezone series) = Some loc"
    by (auto simp: GenerateWeeklyOccurrences_def split: if_splits option.splits)
  from assms loc obtain w0 where w0: "weekdaysLoop (s_ByWeekday series) [] = Inr w0"
    by (auto simp: GenerateWeeklyOccurrences_def split: if_splits sum.splits)
  from assms loc w0 have ne: "w0 \<noteq> []" and d: "0 < s_DurationSeconds series"
    by (auto simp: GenerateWeeklyOccurrences_def split: if_splits)
  have wd: "weekdaysOf series = sort w0" by (simp add: weekdaysOf_def w0)
  from weekdaysLoop_Inr [OF w0] have "distinct w0" "set w0 \<subseteq> {1..7}" by simp_all
  then have props: "weekdaysOf series \<noteq> []" "sorted (weekdaysOf series)"
    "distinct (weekdaysOf series)" "set (weekdaysOf series) \<subseteq> {1..7}"
    using ne wd set_sort [of "\<lambda>x. x" w0] by (auto simp del: set_sort)
  from assms loc w0 ne d
  have "occs = weekLoop (localsOf series loc ws we) (startWeekIndexOf series loc ws) []"
    by (simp add: GenerateWeeklyOccurrences_def Let_def localsOf_def startWeekIndexOf_def wd
        After_def max_def split: if_splits)
  with loc d props show ?thesis by blast
qed

lemma GenerateWeeklyOccurrences_elems:
  assumes "GenerateWeeklyOccurrences tzdb series ws we = Inr occs" and "oc \<in> set occs"
  shows "\<exists>loc k wd. tzdb (s_Timezone series) = Some loc \<and> wd \<in> {1..7} \<and>
           oc = occurrenceAt series
                  (candidateStart series loc
                     (AddDate_days (mondayDateUTC (In (s_DTStart series) loc))
                        (k * interval series * 7)) wd) \<and>
           s_DTStart series \<le> o_StartTime oc \<and>
           o_StartTime oc < we \<and> ws < o_EndTime oc"
proof -
  from GenerateWeeklyOccurrences_Inr [OF assms(1)] obtain loc where
    loc: "tzdb (s_Timezone series) = Some loc"
    and occs: "occs = weekLoop (localsOf series loc ws we) (startWeekIndexOf series loc ws) []"
    and wds: "set (weekdaysOf series) \<subseteq> {1..7}"
    by blast
  let ?l = "localsOf series loc ws we"
  from weekLoop_elems [of oc ?l "startWeekIndexOf series loc ws" "[]"] assms(2) occs
  obtain k wd where wd: "wd \<in> set (l_weekdays ?l)"
    and oc: "oc = occurrenceAt (l_series ?l) (cand ?l (weekStart ?l k) wd)"
    and ge: "s_DTStart (l_series ?l) \<le> cand ?l (weekStart ?l k) wd"
    and mw: "meetsWindow ?l (cand ?l (weekStart ?l k) wd)"
    by auto
  have c: "cand ?l (weekStart ?l k) wd =
      candidateStart series loc
        (AddDate_days (mondayDateUTC (In (s_DTStart series) loc)) (k * interval series * 7)) wd"
    by (simp add: cand_def weekStart_def localsOf_def)
  from wd wds have "wd \<in> {1..7}" by (auto simp: localsOf_def)
  moreover from oc c have "oc = occurrenceAt series
                  (candidateStart series loc
                     (AddDate_days (mondayDateUTC (In (s_DTStart series) loc))
                        (k * interval series * 7)) wd)"
    by (simp add: localsOf_def)
  moreover from this ge mw c have "s_DTStart series \<le> o_StartTime oc"
    "o_StartTime oc < we" "ws < o_EndTime oc"
    by (simp_all add: occurrenceAt_def localsOf_def meetsWindow_def)
  ultimately show ?thesis using loc by blast
qed

subsection \<open>The decimal string of an integer determines it\<close>

lemma formatUint_nonempty: "formatUint n \<noteq> []"
  by (subst formatUint.simps) simp

lemma digit_char_inj:
  assumes "0 \<le> a" "a < 10" "0 \<le> b" "b < 10" "char_of (48 + a) = (char_of (48 + b) :: char)"
  shows "a = (b :: int)"
proof -
  from assms(5) have "of_char (char_of (48 + a) :: char) = (of_char (char_of (48 + b) :: char) :: int)"
    by simp
  then have "(48 + a) mod 256 = (48 + b) mod 256" by (simp add: of_char_of)
  with assms(1-4) show ?thesis by simp
qed

lemma formatUint_inj:
  "0 \<le> a \<Longrightarrow> 0 \<le> b \<Longrightarrow> formatUint a = formatUint b \<Longrightarrow> a = b"
proof (induction a arbitrary: b rule: formatUint.induct)
  case (1 n)
  show ?case
  proof (cases "n < 10")
    case True
    then have fn: "formatUint n = [char_of (48 + n)]" by (subst formatUint.simps) simp
    show ?thesis
    proof (cases "b < 10")
      case True
      then have "formatUint b = [char_of (48 + b)]" by (subst formatUint.simps) simp
      with fn "1.prems" \<open>n < 10\<close> True show ?thesis
        by (auto intro: digit_char_inj)
    next
      case False
      then have "formatUint b = formatUint (b div 10) @ [char_of (48 + b mod 10)]"
        by (subst formatUint.simps) simp
      with fn "1.prems"(3) formatUint_nonempty [of "b div 10"] show ?thesis by simp
    qed
  next
    case False
    then have fn: "formatUint n = formatUint (n div 10) @ [char_of (48 + n mod 10)]"
      by (subst formatUint.simps) simp
    show ?thesis
    proof (cases "b < 10")
      case True
      then have "formatUint b = [char_of (48 + b)]" by (subst formatUint.simps) simp
      with fn "1.prems"(3) formatUint_nonempty [of "n div 10"] show ?thesis by simp
    next
      case nb: False
      then have "formatUint b = formatUint (b div 10) @ [char_of (48 + b mod 10)]"
        by (subst formatUint.simps) simp
      with fn "1.prems"(3) have p: "formatUint (n div 10) = formatUint (b div 10)"
        and c: "char_of (48 + n mod 10) = (char_of (48 + b mod 10) :: char)"
        by simp_all
      have "n div 10 = b div 10"
        using "1.IH" [OF False _ _ p] "1.prems"(1,2) by simp
      moreover have "n mod 10 = b mod 10"
        by (rule digit_char_inj [OF _ _ _ _ c]) simp_all
      ultimately show ?thesis by (metis mult_div_mod_eq)
    qed
  qed
qed

lemma formatUint_no_sign: "0 \<le> n \<Longrightarrow> hd (formatUint n) \<noteq> CHR ''-''"
proof (induction n rule: formatUint.induct)
  case (1 n)
  show ?case
  proof (cases "n < 10")
    case True
    then have fn: "formatUint n = [char_of (48 + n)]" by (subst formatUint.simps) simp
    have "char_of (48 + n) \<noteq> CHR ''-''"
    proof
      assume "char_of (48 + n) = CHR ''-''"
      then have "of_char (char_of (48 + n) :: char) = (of_char CHR ''-'' :: int)"
        by simp
      then have "(48 + n) mod 256 = (45 :: int)" by (simp add: of_char_of)
      with "1.prems" True show False by simp
    qed
    then show ?thesis using fn by simp
  next
    case False
    then have fn: "formatUint n = formatUint (n div 10) @ [char_of (48 + n mod 10)]"
      by (subst formatUint.simps) simp
    from "1.IH" [OF False] "1.prems" have "hd (formatUint (n div 10)) \<noteq> CHR ''-''" by simp
    with fn formatUint_nonempty [of "n div 10"] show ?thesis by simp
  qed
qed

lemma FormatInt_inj: "FormatInt a = FormatInt b \<Longrightarrow> a = b"
proof -
  assume e: "FormatInt a = FormatInt b"
  consider (nn) "a < 0" "b < 0" | (np) "a < 0" "0 \<le> b" | (pn) "0 \<le> a" "b < 0" | (pp) "0 \<le> a" "0 \<le> b"
    by linarith
  then show ?thesis
  proof cases
    case nn
    with e have "formatUint (- a) = formatUint (- b)" by (simp add: FormatInt_def)
    from formatUint_inj [OF _ _ this] nn show ?thesis by simp
  next
    case np
    with e have "CHR ''-'' # formatUint (- a) = formatUint b" by (simp add: FormatInt_def)
    then have "hd (formatUint b) = CHR ''-''" by (metis list.sel(1))
    with formatUint_no_sign [OF np(2)] show ?thesis by simp
  next
    case pn
    with e have "formatUint a = CHR ''-'' # formatUint (- b)" by (simp add: FormatInt_def)
    then have "hd (formatUint a) = CHR ''-''" by simp
    with formatUint_no_sign [OF pn(1)] show ?thesis by simp
  next
    case pp
    with e have "formatUint a = formatUint b" by (simp add: FormatInt_def)
    from formatUint_inj [OF pp this] show ?thesis .
  qed
qed

section \<open>Occurrence ids under overrides\<close>

lemma occurrenceAt_ID: "o_ID (occurrenceAt series s) = FormatInt (UnixNano s)"
  "o_StartTime (occurrenceAt series s) = s"
  by (simp_all add: occurrenceAt_def)

lemma GenerateWeeklyOccurrences_ID:
  assumes "GenerateWeeklyOccurrences tzdb series ws we = Inr occs" and "oc \<in> set occs"
  shows "o_ID oc = FormatInt (UnixNano (o_StartTime oc))"
  using GenerateWeeklyOccurrences_elems [OF assms] by (auto simp: occurrenceAt_ID)

lemma loopOutcome_cases:
  assumes "r \<in> set (loopOutcome exs ws we oc)"
  shows "matchingException exs oc = None \<and> r = oc \<or>
         (\<exists>e. matchingException exs oc = Some e \<and> e_Kind e \<noteq> ''skip'' \<and> r = overridden oc e)"
  using assms by (auto simp: loopOutcome_def split: option.splits if_splits)

text \<open>
  C9. Every occurrence returned by the exception merger for an engine expansion carries
  the id of the engine occurrence it comes from, which is the base-10 string of the UTC
  nanosecond of that engine start: it is that occurrence unchanged (nothing matched it) or
  that occurrence rewritten by the override indexed under the same nanosecond key, so the
  key of the matching exception is the id as well. The id is the nanosecond string of the
  returned start exactly when the returned start has the nanosecond key of the engine
  start; hence an override that moves the start (to another instant less than 2^64
  nanoseconds away) leaves an id that is not the nanosecond string of the reported start.
\<close>

theorem override_keeps_occurrence_id:
  assumes "GenerateWeeklyOccurrences tzdb series windowStart windowEnd = Inr occs"
    and "r \<in> set (applyRecurringExceptions occs exs ws we)"
  shows "\<exists>oc \<in> set occs.
           o_ID r = o_ID oc \<and> o_ID r = FormatInt (UnixNano (o_StartTime oc)) \<and>
           (matchingException exs oc = None \<and> r = oc \<or>
            (\<exists>e. matchingException exs oc = Some e \<and> e_Kind e \<noteq> ''skip'' \<and>
                 r = overridden oc e \<and> o_ID r = FormatInt (UnixNano (e_OccurrenceStart e)))) \<and>
           ((o_ID r = FormatInt (UnixNano (o_StartTime r)))
              = (UnixNano (o_StartTime r) = UnixNano (o_StartTime oc))) \<and>
           (o_StartTime r \<noteq> o_StartTime oc \<and> \<bar>o_StartTime r - o_StartTime oc\<bar> < 2 ^ 64
              \<longrightarrow> o_ID r \<noteq> FormatInt (UnixNano (o_StartTime r)))"
proof -
  from assms(2) obtain oc where oc: "oc \<in> set occs" and r: "r \<in> set (loopOutcome exs ws we oc)"
    by (auto simp: applyRecurringExceptions_concat)
  have idoc: "o_ID oc = FormatInt (UnixNano (o_StartTime oc))"
    by (rule GenerateWeeklyOccurrences_ID [OF assms(1) oc])
  from loopOutcome_cases [OF r] have keep: "o_ID r = o_ID oc"
    by (auto simp: overridden_keeps)
  have how: "matchingException exs oc = None \<and> r = oc \<or>
            (\<exists>e. matchingException exs oc = Some e \<and> e_Kind e \<noteq> ''skip'' \<and>
                 r = overridden oc e \<and> o_ID r = FormatInt (UnixNano (e_OccurrenceStart e)))"
  proof -
    from loopOutcome_cases [OF r]
    consider "matchingException exs oc = None \<and> r = oc"
      | e where "matchingException exs oc = Some e" "e_Kind e \<noteq> ''skip''" "r = overridden oc e"
      by blast
    then show ?thesis
    proof cases
      case 1
      then show ?thesis by blast
    next
      case 2
      from matchingException_Some [OF 2(1)]
      have "UnixNano (e_OccurrenceStart e) = UnixNano (o_StartTime oc)" by simp
      with keep idoc have "o_ID r = FormatInt (UnixNano (e_OccurrenceStart e))" by simp
      with 2 show ?thesis by blast
    qed
  qed
  have iff: "(o_ID r = FormatInt (UnixNano (o_StartTime r)))
              = (UnixNano (o_StartTime r) = UnixNano (o_StartTime oc))"
  proof
    assume "o_ID r = FormatInt (UnixNano (o_StartTime r))"
    with keep idoc have "FormatInt (UnixNano (o_StartTime r)) = FormatInt (UnixNano (o_StartTime oc))"
      by simp
    then show "UnixNano (o_StartTime r) = UnixNano (o_StartTime oc)" by (rule FormatInt_inj)
  next
    assume "UnixNano (o_StartTime r) = UnixNano (o_StartTime oc)"
    with keep idoc show "o_ID r = FormatInt (UnixNano (o_StartTime r))" by simp
  qed
  have moved: "o_StartTime r \<noteq> o_StartTime oc \<and> \<bar>o_StartTime r - o_StartTime oc\<bar> < 2 ^ 64
              \<longrightarrow> o_ID r \<noteq> FormatInt (UnixNano (o_StartTime r))"
    using iff UnixNano_near [of "o_StartTime r" "o_StartTime oc"] by blast
  from keep idoc have id2: "o_ID r = FormatInt (UnixNano (o_StartTime oc))" by simp
  from keep id2 how iff moved
  have "o_ID r = o_ID oc \<and> o_ID r = FormatInt (UnixNano (o_StartTime oc)) \<and>
           (matchingException exs oc = None \<and> r = oc \<or>
            (\<exists>e. matchingException exs oc = Some e \<and> e_Kind e \<noteq> ''skip'' \<and>
                 r = overridden oc e \<and> o_ID r = FormatInt (UnixNano (e_OccurrenceStart e)))) \<and>
           ((o_ID r = FormatInt (UnixNano (o_StartTime r)))
              = (UnixNano (o_StartTime r) = UnixNano (o_StartTime oc))) \<and>
           (o_StartTime r \<noteq> o_StartTime oc \<and> \<bar>o_StartTime r - o_StartTime oc\<bar> < 2 ^ 64
              \<longrightarrow> o_ID r \<noteq> FormatInt (UnixNano (o_StartTime r)))"
    by (intro conjI) assumption+
  with oc show ?thesis by (rule rev_bexI)
qed

lemma GenerateWeeklyOccurrences_seriesS5:
  "GenerateWeeklyOccurrences tzdata seriesS5 (utcDate 2026 3 1 0 0 0) (utcDate 2026 3 22 0 0 0)
     = Inr [occurrenceS5 (utcDate 2026 3 1 14 0 0), occurrenceS5 (utcDate 2026 3 8 13 0 0),
            occurrenceS5 (utcDate 2026 3 15 13 0 0)]"
  by code_simp

lemma applyRecurringExceptions_exMoveS5:
  "applyRecurringExceptions
     [occurrenceS5 (utcDate 2026 3 1 14 0 0), occurrenceS5 (utcDate 2026 3 8 13 0 0),
      occurrenceS5 (utcDate 2026 3 15 13 0 0)] [exMoveS5]
     (utcDate 2026 3 1 0 0 0) (utcDate 2026 3 22 0 0 0)
   = [occurrenceS5 (utcDate 2026 3 1 14 0 0), movedS5, occurrenceS5 (utcDate 2026 3 15 13 0 0)]"
  by code_simp

lemma movedS5_times:
  "utcDate 2026 3 8 15 0 0 \<noteq> utcDate 2026 3 1 14 0 0"
  "utcDate 2026 3 8 15 0 0 \<noteq> utcDate 2026 3 8 13 0 0"
  "utcDate 2026 3 8 15 0 0 \<noteq> utcDate 2026 3 15 13 0 0"
  "\<bar>utcDate 2026 3 8 15 0 0 - utcDate 2026 3 1 14 0 0\<bar> < 2 ^ 64"
  "\<bar>utcDate 2026 3 8 15 0 0 - utcDate 2026 3 8 13 0 0\<bar> < 2 ^ 64"
  "\<bar>utcDate 2026 3 8 15 0 0 - utcDate 2026 3 15 13 0 0\<bar> < 2 ^ 64"
  by code_simp+

theorem override_keeps_occurrence_id_witness:
  "applyRecurringExceptions
     [occurrenceS5 (utcDate 2026 3 1 14 0 0), occurrenceS5 (utcDate 2026 3 8 13 0 0),
      occurrenceS5 (utcDate 2026 3 15 13 0 0)] [exMoveS5]
     (utcDate 2026 3 1 0 0 0) (utcDate 2026 3 22 0 0 0)
   = [occurrenceS5 (utcDate 2026 3 1 14 0 0), movedS5, occurrenceS5 (utcDate 2026 3 15 13 0 0)]
   \<and> o_StartTime movedS5 = utcDate 2026 3 8 15 0 0
   \<and> o_ID movedS5 = ''1772974800000000000''
   \<and> o_ID movedS5 \<noteq> FormatInt (UnixNano (o_StartTime movedS5))"
proof -
  have m: "movedS5 \<in> set (applyRecurringExceptions
     [occurrenceS5 (utcDate 2026 3 1 14 0 0), occurrenceS5 (utcDate 2026 3 8 13 0 0),
      occurrenceS5 (utcDate 2026 3 15 13 0 0)] [exMoveS5]
     (utcDate 2026 3 1 0 0 0) (utcDate 2026 3 22 0 0 0))"
    unfolding applyRecurringExceptions_exMoveS5 by simp
  have st: "o_StartTime movedS5 = utcDate 2026 3 8 15 0 0" by (simp add: movedS5_def)
  from override_keeps_occurrence_id [OF GenerateWeeklyOccurrences_seriesS5 m]
  obtain oc where oc: "oc \<in> set [occurrenceS5 (utcDate 2026 3 1 14 0 0),
        occurrenceS5 (utcDate 2026 3 8 13 0 0), occurrenceS5 (utcDate 2026 3 15 13 0 0)]"
    and imp: "o_StartTime movedS5 \<noteq> o_StartTime oc \<and>
              \<bar>o_StartTime movedS5 - o_StartTime oc\<bar> < 2 ^ 64
              \<longrightarrow> o_ID movedS5 \<noteq> FormatInt (UnixNano (o_StartTime movedS5))"
    by blast
  from oc have "o_StartTime oc = utcDate 2026 3 1 14 0 0 \<or> o_StartTime oc = utcDate 2026 3 8 13 0 0
      \<or> o_StartTime oc = utcDate 2026 3 15 13 0 0"
    by (auto simp: occurrenceS5_def)
  with movedS5_times have "o_StartTime movedS5 \<noteq> o_StartTime oc \<and>
              \<bar>o_StartTime movedS5 - o_StartTime oc\<bar> < 2 ^ 64"
    unfolding st by metis
  with imp have "o_ID movedS5 \<noteq> FormatInt (UnixNano (o_StartTime movedS5))" by blast
  moreover have "o_ID movedS5 = ''1772974800000000000''" by (simp add: movedS5_def)
  ultimately show ?thesis
    using applyRecurringExceptions_exMoveS5 st by blast
qed

section \<open>Properties of the zone lookup and of time.Date\<close>

lemma foldr_max_bound:
  "off \<in> set xs \<Longrightarrow> \<bar>off\<bar> \<le> foldr (\<lambda>off m. max \<bar>off\<bar> m) xs (0::int)"
  by (induction xs) auto

lemma foldr_max_nonneg: "0 \<le> foldr (\<lambda>off m. max \<bar>off\<bar> m) xs (0::int)"
  by (induction xs) auto

lemma maxAbsOffset_nonneg: "0 \<le> maxAbsOffset loc"
  by (simp add: maxAbsOffset_def foldr_max_nonneg)

lemma lookupFrom_offset: "fst (lookupFrom off s tx x) \<in> set (off # map snd tx)"
proof (induction tx arbitrary: off s)
  case Nil
  then show ?case by simp
next
  case (Cons p tx)
  obtain w o' where p: "p = (w, o')" by (cases p)
  from Cons.IH [of o' "Some w"] p show ?case by auto
qed

lemma lookup_offset: "fst (lookup loc x) \<in> set (offsetsOf loc)"
  using lookupFrom_offset [of "zoneFirst loc" None "zoneTrans loc" x]
  by (simp add: lookup_def offsetsOf_def)

lemma lookup_offset_bound: "\<bar>fst (lookup loc x)\<bar> \<le> maxAbsOffset loc"
  unfolding maxAbsOffset_def by (rule foldr_max_bound [OF lookup_offset])

lemma lookupFrom_before_all:
  "\<forall>p \<in> set tx. x < fst p \<Longrightarrow>
     lookupFrom off s tx x = (off, s, case tx of [] \<Rightarrow> None | p # ps \<Rightarrow> Some (fst p))"
  by (cases tx) auto

lemma lookupFrom_contains:
  "lookupFrom off s tx x = (off', st, en) \<Longrightarrow> (\<forall>a. s = Some a \<longrightarrow> a \<le> x) \<Longrightarrow>
     (\<forall>a. st = Some a \<longrightarrow> a \<le> x) \<and> (\<forall>z. en = Some z \<longrightarrow> x < z)"
  by (induction tx arbitrary: off s) (auto split: if_splits)

lemma lookupFrom_start_ge:
  "lookupFrom off (Some a0) tx x = (off', st, en) \<Longrightarrow>
   sorted_wrt (\<lambda>a b. fst a + g < fst b) tx \<Longrightarrow> 0 \<le> g \<Longrightarrow>
   \<forall>p \<in> set tx. a0 + g < fst p \<Longrightarrow> \<exists>a. st = Some a \<and> a0 \<le> a"
proof (induction tx arbitrary: off a0)
  case Nil
  then show ?case by auto
next
  case (Cons p tx)
  obtain w o' where p: "p = (w, o')" by (cases p)
  show ?case
  proof (cases "x < w")
    case True
    with Cons.prems(1) p show ?thesis by auto
  next
    case False
    with Cons.prems(1) p have r: "lookupFrom o' (Some w) tx x = (off', st, en)" by simp
    from Cons.prems(2) p have s: "sorted_wrt (\<lambda>a b. fst a + g < fst b) tx"
      and b: "\<forall>q \<in> set tx. w + g < fst q" by auto
    from Cons.IH [OF r s Cons.prems(3) b] obtain a where "st = Some a" "w \<le> a" by blast
    moreover from Cons.prems(3,4) p have "a0 \<le> w" by simp
    ultimately show ?thesis by simp
  qed
qed

lemma lookupFrom_same:
  "lookupFrom off s tx x = (off', st, en) \<Longrightarrow>
   sorted_wrt (\<lambda>a b. fst a + g < fst b) tx \<Longrightarrow> 0 \<le> g \<Longrightarrow>
   (\<forall>a. st = Some a \<longrightarrow> a \<le> y) \<Longrightarrow> (\<forall>z. en = Some z \<longrightarrow> y < z) \<Longrightarrow>
   lookupFrom off s tx y = (off', st, en)"
proof (induction tx arbitrary: off s)
  case Nil
  then show ?case by simp
next
  case (Cons p tx)
  obtain w o' where p: "p = (w, o')" by (cases p)
  show ?case
  proof (cases "x < w")
    case True
    with Cons.prems(1) p have "off' = off" "st = s" "en = Some w" by simp_all
    with Cons.prems(5) p show ?thesis by simp
  next
    case False
    with Cons.prems(1) p have r: "lookupFrom o' (Some w) tx x = (off', st, en)" by simp
    from Cons.prems(2) p have s: "sorted_wrt (\<lambda>a b. fst a + g < fst b) tx"
      and b: "\<forall>q \<in> set tx. w + g < fst q" by auto
    from lookupFrom_start_ge [OF r s Cons.prems(3) b] obtain a where "st = Some a" "w \<le> a"
      by blast
    with Cons.prems(4) have "w \<le> y" by simp
    with Cons.IH [OF r s Cons.prems(3,4,5)] p show ?thesis by simp
  qed
qed

lemma lookupFrom_near:
  assumes "sorted_wrt (\<lambda>a b. fst a + g < fst b) tx" and "0 \<le> g" and "x \<le> y" and "y \<le> x + g"
    and "\<forall>a. s = Some a \<longrightarrow> a \<le> x \<and> (\<forall>p \<in> set tx. a + g < fst p)"
  shows "lookupFrom off s tx x = lookupFrom off s tx y \<or>
     (\<exists>T. x < T \<and> T \<le> y \<and> (\<forall>a. s = Some a \<longrightarrow> a + g < T) \<and>
        (\<forall>z. T - g \<le> z \<and> z < T \<longrightarrow> lookupFrom off s tx z = lookupFrom off s tx x) \<and>
        (\<forall>z. T \<le> z \<and> z \<le> T + g \<longrightarrow> lookupFrom off s tx z = lookupFrom off s tx y))"
  using assms
proof (induction tx arbitrary: off s)
  case Nil
  then show ?case by simp
next
  case (Cons p tx)
  obtain w o' where p: "p = (w, o')" by (cases p)
  from Cons.prems(1) p have s: "sorted_wrt (\<lambda>a b. fst a + g < fst b) tx"
    and b: "\<forall>q \<in> set tx. w + g < fst q" by auto
  consider (both) "y < w" | (split) "x < w" "w \<le> y" | (rec) "w \<le> x" by linarith
  then show ?case
  proof cases
    case both
    with Cons.prems(3) p show ?thesis by simp
  next
    case split
    have after: "lookupFrom off s (p # tx) z = lookupFrom o' (Some w) tx y"
      if "w \<le> z" "z \<le> w + g" for z
    proof -
      from that b have "\<forall>q \<in> set tx. z < fst q" by auto
      moreover from split Cons.prems(4) b have "\<forall>q \<in> set tx. y < fst q" by auto
      ultimately show ?thesis
        using that p by (simp add: lookupFrom_before_all)
    qed
    have before: "lookupFrom off s (p # tx) z = lookupFrom off s (p # tx) x" if "z < w" for z
      using that split p by simp
    have y: "lookupFrom off s (p # tx) y = lookupFrom o' (Some w) tx y"
      using split p by simp
    have "x < w \<and> w \<le> y \<and> (\<forall>a. s = Some a \<longrightarrow> a + g < w) \<and>
        (\<forall>z. w - g \<le> z \<and> z < w \<longrightarrow> lookupFrom off s (p # tx) z = lookupFrom off s (p # tx) x) \<and>
        (\<forall>z. w \<le> z \<and> z \<le> w + g \<longrightarrow> lookupFrom off s (p # tx) z = lookupFrom off s (p # tx) y)"
      using split Cons.prems(5) p before after y by auto
    then show ?thesis by blast
  next
    case rec
    have st: "\<forall>a. Some w = Some a \<longrightarrow> a \<le> x \<and> (\<forall>q \<in> set tx. a + g < fst q)"
      using rec b by simp
    have unfold: "lookupFrom off s (p # tx) z = lookupFrom o' (Some w) tx z" if "w \<le> z" for z
      using that p by simp
    from Cons.IH [OF s Cons.prems(2,3,4) st, of o']
    consider (eq) "lookupFrom o' (Some w) tx x = lookupFrom o' (Some w) tx y"
      | (tr) T where "x < T" "T \<le> y" "w + g < T"
        "\<forall>z. T - g \<le> z \<and> z < T \<longrightarrow> lookupFrom o' (Some w) tx z = lookupFrom o' (Some w) tx x"
        "\<forall>z. T \<le> z \<and> z \<le> T + g \<longrightarrow> lookupFrom o' (Some w) tx z = lookupFrom o' (Some w) tx y"
      by auto
    then show ?thesis
    proof cases
      case eq
      with rec Cons.prems(3) unfold show ?thesis by simp
    next
      case tr
      from Cons.prems(5) p have sw: "\<forall>a. s = Some a \<longrightarrow> a + g < w" by simp
      have wy: "w \<le> y" using rec Cons.prems(3) by simp
      have 1: "\<forall>a. s = Some a \<longrightarrow> a + g < T"
        using sw tr(3) Cons.prems(2) by auto
      have 2: "\<forall>z. T - g \<le> z \<and> z < T \<longrightarrow>
                 lookupFrom off s (p # tx) z = lookupFrom off s (p # tx) x"
      proof (intro allI impI)
        fix z assume z: "T - g \<le> z \<and> z < T"
        with tr(3) have "w \<le> z" by simp
        with z tr(4) unfold rec show "lookupFrom off s (p # tx) z = lookupFrom off s (p # tx) x"
          by simp
      qed
      have 3: "\<forall>z. T \<le> z \<and> z \<le> T + g \<longrightarrow>
                 lookupFrom off s (p # tx) z = lookupFrom off s (p # tx) y"
      proof (intro allI impI)
        fix z assume z: "T \<le> z \<and> z \<le> T + g"
        with tr(3) Cons.prems(2) have "w \<le> z" by simp
        with z tr(5) unfold wy show "lookupFrom off s (p # tx) z = lookupFrom off s (p # tx) y"
          by simp
      qed
      from tr(1,2) 1 2 3 show ?thesis by blast
    qed
  qed
qed

lemma lookup_contains:
  "lookup loc x = (off, st, en) \<Longrightarrow>
     (\<forall>a. st = Some a \<longrightarrow> a \<le> x) \<and> (\<forall>z. en = Some z \<longrightarrow> x < z)"
  using lookupFrom_contains [of "zoneFirst loc" None "zoneTrans loc" x off st en]
  by (simp add: lookup_def)

lemma lookup_same:
  assumes "wfLocation loc" and "lookup loc x = (off, st, en)"
    and "\<forall>a. st = Some a \<longrightarrow> a \<le> y" and "\<forall>z. en = Some z \<longrightarrow> y < z"
  shows "lookup loc y = (off, st, en)"
proof -
  have g: "0 \<le> 2 * maxAbsOffset loc" using maxAbsOffset_nonneg [of loc] by simp
  from assms(1) have s: "sorted_wrt (\<lambda>a b. fst a + 2 * maxAbsOffset loc < fst b) (zoneTrans loc)"
    by (simp add: wfLocation_def)
  from assms(2) have l: "lookupFrom (zoneFirst loc) None (zoneTrans loc) x = (off, st, en)"
    by (simp add: lookup_def)
  show ?thesis
    unfolding lookup_def by (rule lookupFrom_same [OF l s g assms(3,4)])
qed

lemma lookup_near:
  assumes "wfLocation loc" and "x \<le> y" and "y \<le> x + 2 * maxAbsOffset loc"
  shows "lookup loc x = lookup loc y \<or>
     (\<exists>T. x < T \<and> T \<le> y \<and>
        (\<forall>z. T - 2 * maxAbsOffset loc \<le> z \<and> z < T \<longrightarrow> lookup loc z = lookup loc x) \<and>
        (\<forall>z. T \<le> z \<and> z \<le> T + 2 * maxAbsOffset loc \<longrightarrow> lookup loc z = lookup loc y))"
proof -
  have g: "0 \<le> 2 * maxAbsOffset loc" using maxAbsOffset_nonneg [of loc] by simp
  from assms(1) have s: "sorted_wrt (\<lambda>a b. fst a + 2 * maxAbsOffset loc < fst b) (zoneTrans loc)"
    by (simp add: wfLocation_def)
  have n: "\<forall>a. (None :: int option) = Some a \<longrightarrow>
             a \<le> x \<and> (\<forall>p \<in> set (zoneTrans loc). a + 2 * maxAbsOffset loc < fst p)"
    by simp
  from lookupFrom_near [OF s g assms(2,3) n, of "zoneFirst loc"]
  show ?thesis unfolding lookup_def by blast
qed

lemma wallSecond_cases:
  assumes "lookup loc unix = (a, st, en)"
  shows "wallSecond loc unix =
           (if a = 0 then unix
            else if (\<forall>s. st = Some s \<longrightarrow> s \<le> unix - a) \<and> (\<forall>z. en = Some z \<longrightarrow> unix - a < z)
            then unix - a
            else unix - fst (lookup loc (unix - a)))"
  using assms by (auto simp: wallSecond_def Let_def split: option.splits)

lemma wallSecond_offset: "\<exists>off \<in> set (offsetsOf loc). wallSecond loc unix = unix - off"
proof -
  obtain a st en where l: "lookup loc unix = (a, st, en)" by (cases "lookup loc unix")
  from lookup_offset [of loc unix] l have a: "a \<in> set (offsetsOf loc)" by simp
  show ?thesis
  proof (cases "a = 0")
    case True
    with wallSecond_cases [OF l] a show ?thesis by auto
  next
    case False
    show ?thesis
    proof (cases "(\<forall>s. st = Some s \<longrightarrow> s \<le> unix - a) \<and> (\<forall>z. en = Some z \<longrightarrow> unix - a < z)")
      case True
      with wallSecond_cases [OF l] False have "wallSecond loc unix = unix - a" by simp
      with a show ?thesis by blast
    next
      case out: False
      with wallSecond_cases [OF l] False
      have "wallSecond loc unix = unix - fst (lookup loc (unix - a))" by auto
      with lookup_offset [of loc "unix - a"] show ?thesis by blast
    qed
  qed
qed

lemma wallSecond_reading:
  assumes wf: "wfLocation loc"
  shows "wallReading loc (wallSecond loc unix) = unix \<or> (\<forall>u. wallReading loc u \<noteq> unix)"
proof -
  define m where "m = maxAbsOffset loc"
  obtain a st en where l: "lookup loc unix = (a, st, en)" by (cases "lookup loc unix")
  have bound: "\<bar>fst (lookup loc z)\<bar> \<le> m" for z
    unfolding m_def by (rule lookup_offset_bound)
  from bound [of unix] l have am: "\<bar>a\<bar> \<le> m" by simp
  show ?thesis
  proof (cases "a = 0")
    case True
    with wallSecond_cases [OF l] l show ?thesis by (simp add: wallReading_def)
  next
    case False
    define utc where "utc = unix - a"
    show ?thesis
    proof (cases "(\<forall>s. st = Some s \<longrightarrow> s \<le> utc) \<and> (\<forall>z. en = Some z \<longrightarrow> utc < z)")
      case True
      with wallSecond_cases [OF l] False have w: "wallSecond loc unix = utc"
        by (simp add: utc_def)
      from True have "lookup loc utc = (a, st, en)"
        using lookup_same [OF wf l, of utc] by blast
      with w show ?thesis by (simp add: wallReading_def utc_def)
    next
      case out: False
      define b where "b = fst (lookup loc utc)"
      define r where "r = unix - b"
      from wallSecond_cases [OF l] False out have w: "wallSecond loc unix = r"
        unfolding utc_def r_def b_def by auto
      from bound [of utc] have bm: "\<bar>b\<bar> \<le> m" by (simp add: b_def)
      have ne: "lookup loc unix \<noteq> lookup loc utc"
      proof
        assume "lookup loc unix = lookup loc utc"
        with l have "lookup loc utc = (a, st, en)" by simp
        from lookup_contains [OF this] out show False by blast
      qed
      have reading: "wallReading loc z = unix \<Longrightarrow> unix - m \<le> z \<and> z \<le> unix + m" for z
        using bound [of z] by (auto simp: wallReading_def)
      show ?thesis
      proof (cases "unix \<le> utc")
        case True
        have "utc \<le> unix + 2 * maxAbsOffset loc" using am by (simp add: utc_def m_def)
        from lookup_near [OF wf True this] ne obtain T where T: "unix < T" "T \<le> utc"
          and Z1: "\<forall>z. T - 2 * m \<le> z \<and> z < T \<longrightarrow> lookup loc z = lookup loc unix"
          and Z2: "\<forall>z. T \<le> z \<and> z \<le> T + 2 * m \<longrightarrow> lookup loc z = lookup loc utc"
          unfolding m_def by blast
        have um: "T - m \<le> unix" using T(2) am by (simp add: utc_def)
        show ?thesis
        proof (cases "T \<le> r")
          case True
          have "r \<le> T + 2 * m" using T(1) bm by (simp add: r_def)
          with True Z2 have "lookup loc r = lookup loc utc" by blast
          then have "wallReading loc r = unix" by (simp add: wallReading_def r_def b_def)
          with w show ?thesis by simp
        next
          case rT: False
          have "wallReading loc u \<noteq> unix" for u
          proof
            assume u: "wallReading loc u = unix"
            from reading [OF u] um T(1) have range: "T - 2 * m \<le> u" "u \<le> T + 2 * m" by simp_all
            show False
            proof (cases "u < T")
              case True
              with range Z1 have "lookup loc u = lookup loc unix" by blast
              with u l have "u = utc" by (simp add: wallReading_def utc_def)
              with True T(2) show False by simp
            next
              case False
              with range Z2 have "lookup loc u = lookup loc utc" by simp
              with u have "u = r" by (simp add: wallReading_def r_def b_def)
              with False rT show False by simp
            qed
          qed
          then show ?thesis by blast
        qed
      next
        case False
        then have le: "utc \<le> unix" by simp
        have "unix \<le> utc + 2 * maxAbsOffset loc" using am by (simp add: utc_def m_def)
        from lookup_near [OF wf le this] ne obtain T where T: "utc < T" "T \<le> unix"
          and Z1: "\<forall>z. T - 2 * m \<le> z \<and> z < T \<longrightarrow> lookup loc z = lookup loc utc"
          and Z2: "\<forall>z. T \<le> z \<and> z \<le> T + 2 * m \<longrightarrow> lookup loc z = lookup loc unix"
          unfolding m_def by metis
        have um: "unix < T + m" using T(1) am by (simp add: utc_def)
        show ?thesis
        proof (cases "r < T")
          case True
          have "T - 2 * m \<le> r" using T(2) bm by (simp add: r_def)
          with True Z1 have "lookup loc r = lookup loc utc" by blast
          then have "wallReading loc r = unix" by (simp add: wallReading_def r_def b_def)
          with w show ?thesis by simp
        next
          case rT: False
          have "wallReading loc u \<noteq> unix" for u
          proof
            assume u: "wallReading loc u = unix"
            from reading [OF u] um T(2) have range: "T - 2 * m \<le> u" "u \<le> T + 2 * m" by simp_all
            show False
            proof (cases "u < T")
              case True
              with range Z1 have "lookup loc u = lookup loc utc" by blast
              with u have "u = r" by (simp add: wallReading_def r_def b_def)
              with True rT show False by simp
            next
              case False
              with range Z2 have "lookup loc u = lookup loc unix" by simp
              with u l have "u = utc" by (simp add: wallReading_def utc_def)
              with False T(1) show False by simp
            qed
          qed
          then show ?thesis by blast
        qed
      qed
    qed
  qed
qed

lemma Date_wallSecond:
  "Date day h mi s ns loc = wallSecond loc (day * 86400 + h * 3600 + mi * 60 + s) * 1000000000 + ns"
  by (simp add: Date_def wallSecond_def Let_def split: prod.splits)

lemma absSec_In: "absSec (In t loc) = wallReading loc (unixSec t)"
  by (simp add: absSec_def In_def wallReading_def)

lemma Nanosecond_range: "0 \<le> Nanosecond lt" "Nanosecond lt < 1000000000"
  by (simp_all add: Nanosecond_def)

lemma unixSec_compose:
  "0 \<le> ns \<Longrightarrow> ns < 1000000000 \<Longrightarrow> unixSec (r * 1000000000 + ns) = r"
  by (simp add: unixSec_def)

lemma Nanosecond_compose:
  "0 \<le> ns \<Longrightarrow> ns < 1000000000 \<Longrightarrow> Nanosecond (In (r * 1000000000 + ns) loc) = ns"
  by (simp add: Nanosecond_def In_def)

lemma instant_split: "t = unixSec t * 1000000000 + Nanosecond (In t loc)"
  by (simp add: unixSec_def Nanosecond_def In_def)

lemma clock_fields: "Hour lt * 3600 + Minute lt * 60 + Second lt = absSec lt mod 86400"
proof -
  define a where "a = absSec lt"
  have 1: "a mod 86400 = (a mod 86400) div 3600 * 3600 + (a mod 86400) mod 3600" by simp
  have 2: "(a mod 86400) mod 3600 = a mod 3600" by (simp add: mod_mod_cancel)
  have 3: "a mod 3600 = (a mod 3600) div 60 * 60 + (a mod 3600) mod 60" by simp
  have 4: "(a mod 3600) mod 60 = a mod 60" by (simp add: mod_mod_cancel)
  from 1 2 3 4 show ?thesis unfolding Hour_def Minute_def Second_def a_def [symmetric] by linarith
qed

lemma reading_fields:
  "(civilDay lt = day \<and> Hour lt = Hour dl \<and> Minute lt = Minute dl \<and> Second lt = Second dl)
     = (absSec lt = day * 86400 + absSec dl mod 86400)"
proof
  assume f: "civilDay lt = day \<and> Hour lt = Hour dl \<and> Minute lt = Minute dl \<and> Second lt = Second dl"
  have "absSec lt = civilDay lt * 86400 + absSec lt mod 86400" by (simp add: civilDay_def)
  also have "absSec lt mod 86400 = absSec dl mod 86400"
    using clock_fields [of lt] clock_fields [of dl] f by simp
  finally show "absSec lt = day * 86400 + absSec dl mod 86400" using f by simp
next
  assume a: "absSec lt = day * 86400 + absSec dl mod 86400"
  then have d: "civilDay lt = day" by (simp add: civilDay_def)
  from a have m: "absSec lt mod 86400 = absSec dl mod 86400" by simp
  then have h: "Hour lt = Hour dl" by (simp add: Hour_def)
  have "(absSec lt mod 86400) mod 3600 = (absSec dl mod 86400) mod 3600" using m by simp
  then have m2: "absSec lt mod 3600 = absSec dl mod 3600" by (simp add: mod_mod_cancel)
  then have mi: "Minute lt = Minute dl" by (simp add: Minute_def)
  have "(absSec lt mod 3600) mod 60 = (absSec dl mod 3600) mod 60" using m2 by simp
  then have "absSec lt mod 60 = absSec dl mod 60" by (simp add: mod_mod_cancel)
  then have "Second lt = Second dl" by (simp add: Second_def)
  with d h mi show "civilDay lt = day \<and> Hour lt = Hour dl \<and> Minute lt = Minute dl \<and> Second lt = Second dl"
    by simp
qed

lemma Date_reading:
  assumes "wfLocation loc"
  shows "(civilDay (In (Date day (Hour dl) (Minute dl) (Second dl) (Nanosecond dl) loc) loc) = day \<and>
          Hour (In (Date day (Hour dl) (Minute dl) (Second dl) (Nanosecond dl) loc) loc) = Hour dl \<and>
          Minute (In (Date day (Hour dl) (Minute dl) (Second dl) (Nanosecond dl) loc) loc) = Minute dl \<and>
          Second (In (Date day (Hour dl) (Minute dl) (Second dl) (Nanosecond dl) loc) loc) = Second dl)
       = (\<exists>u. civilDay (In u loc) = day \<and> Hour (In u loc) = Hour dl \<and>
              Minute (In u loc) = Minute dl \<and> Second (In u loc) = Second dl)"
proof -
  define unix where "unix = day * 86400 + absSec dl mod 86400"
  define T where "T = Date day (Hour dl) (Minute dl) (Second dl) (Nanosecond dl) loc"
  have u: "day * 86400 + Hour dl * 3600 + Minute dl * 60 + Second dl = unix"
    using clock_fields [of dl] by (simp add: unix_def)
  have T: "T = wallSecond loc unix * 1000000000 + Nanosecond dl"
    unfolding T_def Date_wallSecond u ..
  have sec: "unixSec T = wallSecond loc unix"
    unfolding T by (rule unixSec_compose [OF Nanosecond_range])
  have abs: "absSec (In T loc) = wallReading loc (wallSecond loc unix)"
    by (simp add: absSec_In sec)
  have "(absSec (In T loc) = unix) = (\<exists>u. absSec (In u loc) = unix)"
  proof
    assume "absSec (In T loc) = unix"
    then show "\<exists>u. absSec (In u loc) = unix" by blast
  next
    assume "\<exists>u. absSec (In u loc) = unix"
    then obtain u where "wallReading loc (unixSec u) = unix" by (auto simp: absSec_In)
    with wallSecond_reading [OF assms, of unix] abs show "absSec (In T loc) = unix" by auto
  qed
  then show ?thesis
    unfolding reading_fields T_def [symmetric] unix_def [symmetric] .
qed

text \<open>
  C3, as far as it holds. In a zone whose table is well-formed, every occurrence emitted
  by GenerateWeeklyOccurrences has the nanosecond of dtstart and starts at
  \<^verbatim>\<open>time.Date(d, h, m, s, ns, Z)\<close> for a calendar day \<open>d\<close>, where \<open>h:m:s.ns\<close> is the
  time of day of dtstart in Z; expressed in Z, the start falls on day \<open>d\<close> at the hour,
  minute and second of dtstart exactly when some instant shows that date and time in Z,
  that is, unless a clock change skips it.
\<close>

theorem wall_clock_stability:
  assumes "GenerateWeeklyOccurrences tzdb series windowStart windowEnd = Inr occs"
    and "tzdb (s_Timezone series) = Some loc" and "wfLocation loc" and "oc \<in> set occs"
  shows "Nanosecond (In (o_StartTime oc) loc) = Nanosecond (In (s_DTStart series) loc) \<and>
    (\<exists>day. o_StartTime oc =
              Date day (Hour (In (s_DTStart series) loc)) (Minute (In (s_DTStart series) loc))
                (Second (In (s_DTStart series) loc)) (Nanosecond (In (s_DTStart series) loc)) loc \<and>
       ((civilDay (In (o_StartTime oc) loc) = day \<and>
         Hour (In (o_StartTime oc) loc) = Hour (In (s_DTStart series) loc) \<and>
         Minute (In (o_StartTime oc) loc) = Minute (In (s_DTStart series) loc) \<and>
         Second (In (o_StartTime oc) loc) = Second (In (s_DTStart series) loc))
        = (\<exists>u. civilDay (In u loc) = day \<and>
               Hour (In u loc) = Hour (In (s_DTStart series) loc) \<and>
               Minute (In u loc) = Minute (In (s_DTStart series) loc) \<and>
               Second (In u loc) = Second (In (s_DTStart series) loc))))"
proof -
  define dl where "dl = In (s_DTStart series) loc"
  from GenerateWeeklyOccurrences_elems [OF assms(1,4)] assms(2)
  obtain wk wd where oc: "oc = occurrenceAt series (candidateStart series loc wk wd)"
    by auto
  define day where "day = civilDay (In (AddDate_days wk (weekdayOffsetFromMonday wd)) UTC)"
  have st: "o_StartTime oc = Date day (Hour dl) (Minute dl) (Second dl) (Nanosecond dl) loc"
    by (simp add: oc occurrenceAt_def candidateStart_def Let_def day_def dl_def)
  have ns: "Nanosecond (In (o_StartTime oc) loc) = Nanosecond dl"
    unfolding st Date_wallSecond by (rule Nanosecond_compose [OF Nanosecond_range])
  have rd: "(civilDay (In (o_StartTime oc) loc) = day \<and>
         Hour (In (o_StartTime oc) loc) = Hour dl \<and>
         Minute (In (o_StartTime oc) loc) = Minute dl \<and>
         Second (In (o_StartTime oc) loc) = Second dl)
        = (\<exists>u. civilDay (In u loc) = day \<and> Hour (In u loc) = Hour dl \<and>
               Minute (In u loc) = Minute dl \<and> Second (In u loc) = Second dl)"
    unfolding st by (rule Date_reading [OF assms(3)])
  from st ns rd show ?thesis unfolding dl_def by blast
qed

lemma GenerateWeeklyOccurrences_seriesGap:
  "GenerateWeeklyOccurrences tzdata seriesGap (utcDate 2026 3 1 0 0 0) (utcDate 2026 3 22 0 0 0)
     = Inr [occurrenceGap (utcDate 2026 3 1 7 30 0), occurrenceGap (utcDate 2026 3 8 6 30 0),
            occurrenceGap (utcDate 2026 3 15 6 30 0)]"
  by code_simp

lemma wfLocation_America_New_York: "wfLocation America_New_York"
  by code_simp

lemma seriesGap_clock:
  "Hour (In (s_DTStart seriesGap) America_New_York) = 2"
  "Minute (In (s_DTStart seriesGap) America_New_York) = 30"
  "Second (In (s_DTStart seriesGap) America_New_York) = 0"
  "Nanosecond (In (s_DTStart seriesGap) America_New_York) = 0"
  by code_simp+

theorem wall_clock_stability_witness:
  "wfLocation America_New_York \<and>
   Nanosecond (In (utcDate 2026 3 1 7 30 0) America_New_York) = 0 \<and>
   (\<exists>day. utcDate 2026 3 1 7 30 0 = Date day 2 30 0 0 America_New_York \<and>
      ((civilDay (In (utcDate 2026 3 1 7 30 0) America_New_York) = day \<and>
        Hour (In (utcDate 2026 3 1 7 30 0) America_New_York) = 2 \<and>
        Minute (In (utcDate 2026 3 1 7 30 0) America_New_York) = 30 \<and>
        Second (In (utcDate 2026 3 1 7 30 0) America_New_York) = 0)
       = (\<exists>u. civilDay (In u America_New_York) = day \<and> Hour (In u America_New_York) = 2 \<and>
              Minute (In u America_New_York) = 30 \<and> Second (In u America_New_York) = 0)))"
proof -
  have z: "tzdata (s_Timezone seriesGap) = Some America_New_York"
    by (simp add: tzdata_def seriesGap_def)
  have m: "occurrenceGap (utcDate 2026 3 1 7 30 0) \<in>
      set [occurrenceGap (utcDate 2026 3 1 7 30 0), occurrenceGap (utcDate 2026 3 8 6 30 0),
           occurrenceGap (utcDate 2026 3 15 6 30 0)]"
    by simp
  have s: "o_StartTime (occurrenceGap (utcDate 2026 3 1 7 30 0)) = utcDate 2026 3 1 7 30 0"
    by (simp add: occurrenceGap_def)
  from wall_clock_stability [OF GenerateWeeklyOccurrences_seriesGap z wfLocation_America_New_York m]
  show ?thesis
    unfolding s seriesGap_clock using wfLocation_America_New_York by blast
qed

text \<open>
  The series of Sundays at 02:30 in America/New_York: its occurrence on 2026-03-08, the
  day of the change to daylight saving time, starts at 06:30 UTC, which is 01:30 local
  time, while dtstart is at 02:30 local time.
\<close>

theorem wall_clock_gap_counterexample:
  "GenerateWeeklyOccurrences tzdata seriesGap (utcDate 2026 3 1 0 0 0) (utcDate 2026 3 22 0 0 0)
     = Inr [occurrenceGap (utcDate 2026 3 1 7 30 0), occurrenceGap (utcDate 2026 3 8 6 30 0),
            occurrenceGap (utcDate 2026 3 15 6 30 0)]
   \<and> (Hour (In (s_DTStart seriesGap) America_New_York),
       Minute (In (s_DTStart seriesGap) America_New_York)) = (2, 30)
   \<and> (Hour (In (o_StartTime (occurrenceGap (utcDate 2026 3 8 6 30 0))) America_New_York),
       Minute (In (o_StartTime (occurrenceGap (utcDate 2026 3 8 6 30 0))) America_New_York)) = (1, 30)"
  by code_simp

end
